theory Spec2Isabelle
  imports Main "HOL-Library.Char_ord" "HOL-Library.List_Lexorder"
begin

section \<open>The module state of the bake tool\<close>

text \<open>
  The tool is one Python module whose functions read and write module-level variables
  and call into the host application (Maya). The model passes the module-level variables
  around as one record and takes every answer of the host as an oracle.

  A host call inside a \<^verbatim>\<open>try\<close> either returns a value or raises an exception
  that \<^verbatim>\<open>except Exception\<close> catches.
\<close>

datatype 'a py = Raised | Ret 'a

text \<open>
  The values a call returns to its caller. The functions of the module modelled here end
  without a \<^verbatim>\<open>return\<close> of a value, which is Python's \<^verbatim>\<open>None\<close>; a dictionary
  of statuses is the other value a caller could expect of them, and a truth value is what
  a bake call could return to tell how it went.
\<close>

datatype status = S_not | S_baked | S_skipped | S_failed | S_canceled

datatype pyval = PyNone | PyBool bool | PyDict "string \<rightharpoonup> status"

text \<open>
  One entry of \<^verbatim>\<open>scene_actors.get_all_actors_in_scene()\<close> and one entry of
  \<^verbatim>\<open>_RIGS_CACHE\<close>. A namespace that is missing or \<^verbatim>\<open>None\<close> is \<open>None\<close>;
  numeric attribute values are integers (Python's \<^verbatim>\<open>True\<close> is the integer 1).
\<close>

record actor =
  a_namespace :: "string option"
  a_actor_name :: string

record rig =
  namespace :: "string option"
  actor_name :: string
  bind_skeleton_driver :: "int option"

datatype warning =
    W_bake_canceled_no_rigs
  | W_failed_read_head_tail
  | W_fallback_timeline int int
  | W_start_greater_than_end
  | W_failed_baking string
  | W_could_not_mute string
  | W_could_not_restore string

text \<open>The calls into the host that leave a mark outside the module, in the order made.\<close>

datatype event =
    Warn warning
  | BatchCall string int int
  | DeleteTimeEditor
  | SetPlayback int int
  | InViewMessage int int

text \<open>
  \<open>muted_expr_backup\<close> is \<open>None\<close> until \<^verbatim>\<open>mute_broken_expressions\<close> has bound the
  global name of the backup; a dictionary is kept in insertion order as a list of pairs.
  \<open>expressions\<close> is the script of every expression node of the scene, the one part of the
  scene that the module edits itself.
\<close>

record session =
  STATUS :: "string \<rightharpoonup> status"
  MARKED_NS :: "string set"
  RIGS_CACHE :: "rig list"
  LIST_LABELS :: "string list"
  LABEL2NS :: "string \<rightharpoonup> string"
  muted_expr_backup :: "(string \<times> string) list option"
  expressions :: "string \<rightharpoonup> string"
  trace :: "event list"

definition emit :: "event \<Rightarrow> session \<Rightarrow> session" where
  "emit e st = st\<lparr>trace := trace st @ [e]\<rparr>"

definition initial_session :: session where
  "initial_session = \<lparr>STATUS = Map.empty, MARKED_NS = {}, RIGS_CACHE = [], LIST_LABELS = [],
     LABEL2NS = Map.empty, muted_expr_backup = None, expressions = Map.empty, trace = []\<rparr>"

section \<open>The host\<close>

text \<open>What the scene answers at one moment.\<close>

record scene =
  objExists :: "string \<Rightarrow> bool py"
  attributeQuery_exists :: "string \<Rightarrow> string \<Rightarrow> bool py"
  getAttr :: "string \<Rightarrow> int py"
  listRelatives_shapes :: "string \<Rightarrow> string list py"
  anim_camera_get_attr :: "string \<Rightarrow> string \<Rightarrow> int option py"

text \<open>
  The three values of \<^verbatim>\<open>_collect_filter_flags\<close>, read from the widgets. With them
  comes \<^verbatim>\<open>str.lower\<close>, the case folding of the language that the filter applies to
  the text and to every label: it is no code of the module, so the model takes it as
  given, whatever function it is.
\<close>

record filter_flags =
  tf_filter :: string
  hide_baked :: bool
  show_only_marked :: bool
  str_lower :: "string \<Rightarrow> string"

text \<open>
  The answers of the host during one operation of the tool. The batch loop numbers its
  items from 1 (\<^verbatim>\<open>enumerate(namespaces, 1)\<close>); \<open>isCancelled i\<close> is the answer of
  \<^verbatim>\<open>progressWindow(q=True, isCancelled=True)\<close> in iteration \<open>i\<close>, \<open>scene_at i\<close> the
  scene as iteration \<open>i\<close> reads it (\<open>scene_at 0\<close> is the scene before the loop) and
  \<open>retarget_batch i ns s e\<close> is what the bake of \<open>ns\<close> did there: it raised, or it
  returned a value. The calls that
  drive the progress window, the message and the time slider are taken to return normally.
\<close>

record host =
  isCancelled :: "nat \<Rightarrow> bool"
  scene_at :: "nat \<Rightarrow> scene"
  retarget_batch :: "nat \<Rightarrow> string \<Rightarrow> int \<Rightarrow> int \<Rightarrow> pyval py"
  collect_filter_flags :: filter_flags
  get_all_actors_in_scene :: "actor list py"
  playback_min :: int
  playback_max :: int
  list_broken_expressions :: "(string \<times> string list) list"
  expression_edit_raises :: "string \<Rightarrow> string \<Rightarrow> bool"
  bake_all_dialog :: string
  time_editor_dialog :: string

section \<open>Status table\<close>

definition truthy :: "string \<Rightarrow> bool" where
  "truthy ns = (ns \<noteq> [])"

definition status_init_from_bind :: "string \<Rightarrow> int option \<Rightarrow> session \<Rightarrow> session" where
  "status_init_from_bind ns bind_driver st =
     (if ns \<notin> dom (STATUS st)
      then st\<lparr>STATUS := (STATUS st)(ns \<mapsto> (if bind_driver = Some 1 then S_baked else S_not))\<rparr>
      else st)"

definition status_set :: "string \<Rightarrow> status \<Rightarrow> session \<Rightarrow> session" where
  "status_set ns state st = (if truthy ns then st\<lparr>STATUS := (STATUS st)(ns \<mapsto> state)\<rparr> else st)"

definition status_get :: "session \<Rightarrow> string \<Rightarrow> status" where
  "status_get st ns = (case STATUS st ns of None \<Rightarrow> S_not | Some s \<Rightarrow> s)"

definition terminal :: "status \<Rightarrow> bool" where
  "terminal s = (s = S_baked \<or> s = S_skipped \<or> s = S_failed \<or> s = S_canceled)"

section \<open>Reading the bind driver and listing the rigs\<close>

definition read_bind_driver :: "scene \<Rightarrow> string \<Rightarrow> int option" where
  "read_bind_driver sc ns =
     (let switch = ns @ '':M_GlobalSwitch01_CTRL'';
          attr = switch @ ''.bind_skeleton_driver''
      in case objExists sc switch of
           Raised \<Rightarrow> None
         | Ret False \<Rightarrow> None
         | Ret True \<Rightarrow>
             (case attributeQuery_exists sc ''bind_skeleton_driver'' switch of
                Raised \<Rightarrow> None
              | Ret False \<Rightarrow> None
              | Ret True \<Rightarrow> (case getAttr sc attr of Raised \<Rightarrow> None | Ret v \<Rightarrow> Some v)))"

definition list_scene_rigs :: "scene \<Rightarrow> actor list py \<Rightarrow> rig list" where
  "list_scene_rigs sc actors =
     (let all_actors = (case actors of Raised \<Rightarrow> [] | Ret as \<Rightarrow> as)
      in map (\<lambda>a. \<lparr>namespace = a_namespace a, actor_name = a_actor_name a,
                    bind_skeleton_driver =
                      (case a_namespace a of
                         None \<Rightarrow> None
                       | Some ns \<Rightarrow> if truthy ns then read_bind_driver sc ns else None)\<rparr>)
             all_actors)"

section \<open>The list of rows\<close>

definition LIST_MARK_ON :: string where
  "LIST_MARK_ON = [CHR 0xF0, CHR 0x9F, CHR 0x9F, CHR 0xA2]"

definition LIST_MARK_OFF :: string where
  "LIST_MARK_OFF = [CHR 0xE2, CHR 0x9A, CHR 0xAA]"

fun STATUS_ICON :: "status \<Rightarrow> string" where
  "STATUS_ICON S_not = [CHR 0xE2, CHR 0x9A, CHR 0xAA]"
| "STATUS_ICON S_baked = [CHR 0xF0, CHR 0x9F, CHR 0x9F, CHR 0xA2]"
| "STATUS_ICON S_skipped = [CHR 0xF0, CHR 0x9F, CHR 0x9F, CHR 0xA1]"
| "STATUS_ICON S_failed = [CHR 0xF0, CHR 0x9F, CHR 0x94, CHR 0xB4]"
| "STATUS_ICON S_canceled = [CHR 0xF0, CHR 0x9F, CHR 0x94, CHR 0xB5]"

fun STATUS_LABEL :: "status \<Rightarrow> string" where
  "STATUS_LABEL S_not = ''Not baked''"
| "STATUS_LABEL S_baked = ''Baked''"
| "STATUS_LABEL S_skipped = ''Skipped''"
| "STATUS_LABEL S_failed = ''Failed''"
| "STATUS_LABEL S_canceled = ''Canceled''"

definition rig_pretty_label :: "session \<Rightarrow> string \<Rightarrow> string \<Rightarrow> string" where
  "rig_pretty_label st ns nm =
     (let mark = (if ns \<in> MARKED_NS st then LIST_MARK_ON else LIST_MARK_OFF);
          s = status_get st ns;
          core = (if truthy nm then ns @ '' '' @ [CHR 0xE2, CHR 0x80, CHR 0x94] @ '' '' @ nm else ns)
      in mark @ '' '' @ core @ ''    '' @ STATUS_ICON s @ '' '' @ STATUS_LABEL s)"

text \<open>
  \<^verbatim>\<open>needle in haystack\<close> on strings, as in \<^verbatim>\<open>txt.lower() in label.lower()\<close>.
\<close>

fun contains :: "string \<Rightarrow> string \<Rightarrow> bool" where
  "contains [] needle = (needle = [])"
| "contains (c # cs) needle = (take (length needle) (c # cs) = needle \<or> contains cs needle)"

text \<open>
  The loop of \<^verbatim>\<open>_populate_list\<close> over the cache: the rows that pass the three filters,
  in cache order, each with the namespace it stands for.
\<close>

fun populate_rows :: "filter_flags \<Rightarrow> session \<Rightarrow> rig list \<Rightarrow> (string \<times> string) list" where
  "populate_rows ff st [] = []"
| "populate_rows ff st (r # rs) =
     (case namespace r of
        None \<Rightarrow> populate_rows ff st rs
      | Some ns \<Rightarrow>
          if \<not> truthy ns then populate_rows ff st rs
          else if hide_baked ff \<and> bind_skeleton_driver r = Some 1 then populate_rows ff st rs
          else if show_only_marked ff \<and> ns \<notin> MARKED_NS st then populate_rows ff st rs
          else let label = rig_pretty_label st ns (actor_name r)
               in if truthy (tf_filter ff)
                     \<and> \<not> contains (str_lower ff label) (str_lower ff (tf_filter ff))
                  then populate_rows ff st rs
                  else (label, ns) # populate_rows ff st rs)"

text \<open>
  \<^verbatim>\<open>_populate_list\<close>: a later row with the same label overwrites the entry of an earlier
  one in \<^verbatim>\<open>_LABEL2NS\<close>. The selection of rows is widget state and stays with the host.
\<close>

definition populate_list :: "filter_flags \<Rightarrow> session \<Rightarrow> session" where
  "populate_list ff st =
     (let rows = populate_rows ff st (RIGS_CACHE st)
      in st\<lparr>LIST_LABELS := map fst rows, LABEL2NS := map_of (rev rows)\<rparr>)"

section \<open>The batch driver\<close>

text \<open>
  The \<^verbatim>\<open>try\<close> suite of one item (lines 246 to 253): it ends normally or raises, and the
  state it has reached by then is kept in both cases. What the bake call returns is not
  bound to a name and not looked at.
\<close>

definition bake_try ::
  "host \<Rightarrow> int \<Rightarrow> int \<Rightarrow> nat \<Rightarrow> string \<Rightarrow> int option \<Rightarrow> session \<Rightarrow> unit py \<times> session" where
  "bake_try h start_frame end_frame i ns bsd st =
     (if bsd = Some 1 then (Ret (), status_set ns S_skipped st)
      else let st1 = emit (BatchCall ns start_frame end_frame) st
           in case retarget_batch h i ns start_frame end_frame of
                Raised \<Rightarrow> (Raised, st1)
              | Ret u \<Rightarrow> (Ret (), status_set ns S_baked st1))"

text \<open>
  The same suite under its \<^verbatim>\<open>except Exception\<close> handler (lines 254 to 256). The
  bind driver is read just before (lines 240 to 243); \<open>read_bind_driver\<close> catches
  whatever the scene raises, so the handler around that read has nothing to catch.
\<close>

definition bake_item ::
  "host \<Rightarrow> int \<Rightarrow> int \<Rightarrow> nat \<Rightarrow> string \<Rightarrow> session \<Rightarrow> unit py \<times> session" where
  "bake_item h start_frame end_frame i ns st =
     (let bsd = read_bind_driver (scene_at h i) ns
      in case bake_try h start_frame end_frame i ns bsd st of
           (Raised, st1) \<Rightarrow> (Ret (), emit (Warn (W_failed_baking ns)) (status_set ns S_failed st1))
         | (Ret u, st1) \<Rightarrow> (Ret (), st1))"

text \<open>\<^verbatim>\<open>for rest in namespaces[i-1:]: _status_set(rest, 'canceled')\<close>\<close>

fun cancel_rest :: "string list \<Rightarrow> session \<Rightarrow> session" where
  "cancel_rest [] st = st"
| "cancel_rest (r # rest) st = cancel_rest rest (status_set r S_canceled st)"

text \<open>
  The \<^verbatim>\<open>for\<close> loop, entered at iteration \<open>i\<close> with the items from \<open>i\<close> on, which
  are \<^verbatim>\<open>namespaces[i-1:]\<close>. An exception that leaves an item would leave the loop.
\<close>

fun bake_loop ::
  "host \<Rightarrow> int \<Rightarrow> int \<Rightarrow> nat \<Rightarrow> string list \<Rightarrow> session \<Rightarrow> unit py \<times> session" where
  "bake_loop h start_frame end_frame i [] st = (Ret (), st)"
| "bake_loop h start_frame end_frame i (ns # rest) st =
     (if isCancelled h i then (Ret (), cancel_rest (ns # rest) st)
      else case bake_item h start_frame end_frame i ns st of
             (Raised, st1) \<Rightarrow> (Raised, st1)
           | (Ret u, st1) \<Rightarrow> bake_loop h start_frame end_frame (Suc i) rest st1)"

definition bake_selected_actors_in_range_with_progress ::
  "host \<Rightarrow> string list \<Rightarrow> int \<Rightarrow> int \<Rightarrow> session \<Rightarrow> pyval py \<times> session" where
  "bake_selected_actors_in_range_with_progress h namespaces start_frame end_frame st =
     (if length namespaces = 0 then (Ret PyNone, st)
      else case bake_loop h start_frame end_frame 1 namespaces st of
             (Raised, st1) \<Rightarrow> (Raised, st1)
           | (Ret u, st1) \<Rightarrow> (Ret PyNone, populate_list (collect_filter_flags h) st1))"

text \<open>
  What one item comes to when its turn is reached without a cancellation: the three
  branches of \<open>bake_item\<close> read off as a status.
\<close>

definition item_outcome :: "host \<Rightarrow> int \<Rightarrow> int \<Rightarrow> nat \<Rightarrow> string \<Rightarrow> status" where
  "item_outcome h start_frame end_frame i ns =
     (if read_bind_driver (scene_at h i) ns = Some 1 then S_skipped
      else case retarget_batch h i ns start_frame end_frame of
             Raised \<Rightarrow> S_failed
           | Ret u \<Rightarrow> S_baked)"

definition settled :: "session \<Rightarrow> string \<Rightarrow> bool" where
  "settled st x = (case STATUS st x of None \<Rightarrow> False | Some s \<Rightarrow> terminal s)"

text \<open>
  The loop with the cancellation check left out: the items \<open>xs\<close> taken one after the
  other from iteration \<open>i\<close> on. It names the state that the loop has reached after them.
\<close>

fun run_items :: "host \<Rightarrow> int \<Rightarrow> int \<Rightarrow> nat \<Rightarrow> string list \<Rightarrow> session \<Rightarrow> session" where
  "run_items h start_frame end_frame i [] st = st"
| "run_items h start_frame end_frame i (ns # rest) st =
     run_items h start_frame end_frame (Suc i) rest (snd (bake_item h start_frame end_frame i ns st))"

text \<open>What the host sees of one item: the bake call, unless skipped, and the warning if it raised.\<close>

definition item_events :: "host \<Rightarrow> int \<Rightarrow> int \<Rightarrow> nat \<Rightarrow> string \<Rightarrow> event list" where
  "item_events h start_frame end_frame i ns =
     (if read_bind_driver (scene_at h i) ns = Some 1 then []
      else BatchCall ns start_frame end_frame #
           (case retarget_batch h i ns start_frame end_frame of
              Raised \<Rightarrow> [Warn (W_failed_baking ns)]
            | Ret u \<Rightarrow> []))"

fun events_of :: "host \<Rightarrow> int \<Rightarrow> int \<Rightarrow> nat \<Rightarrow> string list \<Rightarrow> event list" where
  "events_of h start_frame end_frame i [] = []"
| "events_of h start_frame end_frame i (ns # rest) =
     item_events h start_frame end_frame i ns @ events_of h start_frame end_frame (Suc i) rest"

section \<open>The selective bake without progress window\<close>

text \<open>
  \<^verbatim>\<open>bake_selected_actors_in_range\<close> (lines 183 to 202), the helper beside the batch
  driver: it takes the skip option as an argument and keeps no status.
\<close>

fun selective_loop ::
  "host \<Rightarrow> bool \<Rightarrow> int \<Rightarrow> int \<Rightarrow> nat \<Rightarrow> string list \<Rightarrow> session \<Rightarrow> session" where
  "selective_loop h skip_if_baked start_frame end_frame i [] st = st"
| "selective_loop h skip_if_baked start_frame end_frame i (ns # rest) st =
     (let bsd = read_bind_driver (scene_at h i) ns
      in if skip_if_baked \<and> bsd = Some 1
         then selective_loop h skip_if_baked start_frame end_frame (Suc i) rest st
         else let st1 = emit (BatchCall ns start_frame end_frame) st
              in selective_loop h skip_if_baked start_frame end_frame (Suc i) rest
                   (case retarget_batch h i ns start_frame end_frame of
                      Raised \<Rightarrow> emit (Warn (W_failed_baking ns)) st1
                    | Ret u \<Rightarrow> st1))"

definition bake_selected_actors_in_range ::
  "host \<Rightarrow> string list \<Rightarrow> int \<Rightarrow> int \<Rightarrow> bool \<Rightarrow> session \<Rightarrow> pyval py \<times> session" where
  "bake_selected_actors_in_range h namespaces start_frame end_frame skip_if_baked st =
     (if namespaces = [] then (Ret PyNone, st)
      else (Ret PyNone, selective_loop h skip_if_baked start_frame end_frame 1 namespaces st))"

section \<open>Refreshing the inventory\<close>

definition rig_namespaces :: "rig list \<Rightarrow> string list" where
  "rig_namespaces rigs =
     List.map_filter
       (\<lambda>r. case namespace r of None \<Rightarrow> None | Some ns \<Rightarrow> if truthy ns then Some ns else None)
       rigs"

definition scene_namespaces :: "rig list \<Rightarrow> string set" where
  "scene_namespaces rigs = set (rig_namespaces rigs)"

text \<open>The seeding loop of \<^verbatim>\<open>_refresh_rigs_cache\<close> (lines 406 to 409).\<close>

fun seed_statuses :: "rig list \<Rightarrow> session \<Rightarrow> session" where
  "seed_statuses [] st = st"
| "seed_statuses (r # rs) st =
     seed_statuses rs
       (case namespace r of
          None \<Rightarrow> st
        | Some ns \<Rightarrow> if truthy ns then status_init_from_bind ns (bind_skeleton_driver r) st else st)"

definition refresh_rigs_cache :: "host \<Rightarrow> session \<Rightarrow> session" where
  "refresh_rigs_cache h st =
     (let prev_marks = MARKED_NS st;
          rigs = list_scene_rigs (scene_at h 0) (get_all_actors_in_scene h)
      in seed_statuses rigs
           (st\<lparr>RIGS_CACHE := rigs, MARKED_NS := prev_marks \<inter> scene_namespaces rigs\<rparr>))"

text \<open>A sequence of refreshes, each against the host as it is at that time.\<close>

fun refreshes :: "host list \<Rightarrow> session \<Rightarrow> session" where
  "refreshes [] st = st"
| "refreshes (h # hs) st = refreshes hs (refresh_rigs_cache h st)"

text \<open>The ids of the inventory: the namespaces of the cached rigs.\<close>

definition inventory_ids :: "session \<Rightarrow> string set" where
  "inventory_ids st = scene_namespaces (RIGS_CACHE st)"

text \<open>The end of \<^verbatim>\<open>open_bake_ui\<close> (lines 1123 and 1124), the one place that refreshes.\<close>

definition open_bake_ui :: "host \<Rightarrow> session \<Rightarrow> session" where
  "open_bake_ui h st = populate_list (collect_filter_flags h) (refresh_rigs_cache h st)"

section \<open>Marking\<close>

text \<open>
  \<^verbatim>\<open>_selected_namespaces\<close>: \<open>labels\<close> are the rows selected in the list widget; a label
  that \<^verbatim>\<open>_LABEL2NS\<close> does not know is left out.
\<close>

definition selected_namespaces :: "session \<Rightarrow> string list \<Rightarrow> string list" where
  "selected_namespaces st labels = List.map_filter (LABEL2NS st) labels"

text \<open>
  In the three operations \<open>ns_list\<close> is the value of \<^verbatim>\<open>_selected_namespaces()\<close> and
  \<open>ff\<close> what \<^verbatim>\<open>_populate_list\<close> reads from the filter widgets.
\<close>

definition mark_selected :: "filter_flags \<Rightarrow> string list \<Rightarrow> session \<Rightarrow> session" where
  "mark_selected ff ns_list st =
     (if ns_list = [] then st
      else populate_list ff (st\<lparr>MARKED_NS := fold insert ns_list (MARKED_NS st)\<rparr>))"

definition unmark_selected :: "filter_flags \<Rightarrow> string list \<Rightarrow> session \<Rightarrow> session" where
  "unmark_selected ff ns_list st =
     (if ns_list = [] then st
      else populate_list ff (st\<lparr>MARKED_NS := fold (\<lambda>ns M. M - {ns}) ns_list (MARKED_NS st)\<rparr>))"

definition toggle_one :: "string \<Rightarrow> string set \<Rightarrow> string set" where
  "toggle_one ns M = (if ns \<in> M then M - {ns} else insert ns M)"

definition toggle_selected :: "filter_flags \<Rightarrow> string list \<Rightarrow> session \<Rightarrow> session" where
  "toggle_selected ff ns_list st =
     (if ns_list = [] then st
      else populate_list ff (st\<lparr>MARKED_NS := fold toggle_one ns_list (MARKED_NS st)\<rparr>))"

definition clear_all_marks :: "filter_flags \<Rightarrow> session \<Rightarrow> session" where
  "clear_all_marks ff st =
     (if MARKED_NS st = {} then st else populate_list ff (st\<lparr>MARKED_NS := {}\<rparr>))"

text \<open>\<^verbatim>\<open>_hotkey_toggle_last_selected\<close>, \<open>window\<close> telling whether the window exists.\<close>

definition hotkey_toggle_last_selected ::
  "filter_flags \<Rightarrow> bool \<Rightarrow> string list \<Rightarrow> session \<Rightarrow> session" where
  "hotkey_toggle_last_selected ff window labels st =
     (if \<not> window then st
      else if labels = [] then st
      else case LABEL2NS st (last labels) of
             None \<Rightarrow> st
           | Some ns \<Rightarrow>
               if \<not> truthy ns then st
               else populate_list ff (st\<lparr>MARKED_NS := toggle_one ns (MARKED_NS st)\<rparr>))"

section \<open>The frame range\<close>

text \<open>
  \<^verbatim>\<open>_read_cam_attr_int\<close> tries three readers in turn. The integer that a reader gives is
  the attribute after \<^verbatim>\<open>int(round(float(v)))\<close>; a reader that raises, also in that
  conversion, gives nothing and the next one is tried.
\<close>

definition read_ctx :: "scene \<Rightarrow> string \<Rightarrow> string \<Rightarrow> int option" where
  "read_ctx sc cam attr =
     (case anim_camera_get_attr sc cam attr of
        Raised \<Rightarrow> None
      | Ret None \<Rightarrow> None
      | Ret (Some v) \<Rightarrow> Some v)"

definition read_plug :: "scene \<Rightarrow> string \<Rightarrow> int option" where
  "read_plug sc plug =
     (case objExists sc plug of
        Raised \<Rightarrow> None
      | Ret False \<Rightarrow> None
      | Ret True \<Rightarrow> (case getAttr sc plug of Raised \<Rightarrow> None | Ret v \<Rightarrow> Some v))"

definition read_shape :: "scene \<Rightarrow> string \<Rightarrow> string \<Rightarrow> int option" where
  "read_shape sc cam attr =
     (case listRelatives_shapes sc cam of
        Raised \<Rightarrow> None
      | Ret [] \<Rightarrow> None
      | Ret (shp # others) \<Rightarrow> if truthy shp then read_plug sc (shp @ ''.'' @ attr) else None)"

definition read_cam_attr_int :: "scene \<Rightarrow> string \<Rightarrow> string \<Rightarrow> int py" where
  "read_cam_attr_int sc cam attr =
     (case read_ctx sc cam attr of
        Some v \<Rightarrow> Ret v
      | None \<Rightarrow>
          (case read_plug sc (cam @ ''.'' @ attr) of
             Some v \<Rightarrow> Ret v
           | None \<Rightarrow> (case read_shape sc cam attr of Some v \<Rightarrow> Ret v | None \<Rightarrow> Raised)))"

definition get_start_frame_from_layout_cam :: "scene \<Rightarrow> string \<Rightarrow> int \<Rightarrow> int py" where
  "get_start_frame_from_layout_cam sc camera pre_frame =
     (case read_cam_attr_int sc camera ''headIn'' of
        Raised \<Rightarrow> Raised
      | Ret start \<Rightarrow> Ret (start - pre_frame))"

definition get_end_frame_from_layout_cam :: "scene \<Rightarrow> string \<Rightarrow> int \<Rightarrow> int py" where
  "get_end_frame_from_layout_cam sc camera post_frame =
     (case read_cam_attr_int sc camera ''tailOut'' of
        Raised \<Rightarrow> Raised
      | Ret end_v \<Rightarrow> Ret (end_v + post_frame))"

text \<open>\<^verbatim>\<open>l.replace('  (HT)', '')\<close>, the local \<^verbatim>\<open>normalize\<close> of \<^verbatim>\<open>_on_run_bake\<close>.\<close>

fun normalize_label :: "string \<Rightarrow> string" where
  "normalize_label [] = []"
| "normalize_label (c # cs) =
     (if take 6 (c # cs) = ''  (HT)'' then normalize_label (drop 5 cs)
      else c # normalize_label cs)"

text \<open>The widgets that \<^verbatim>\<open>_on_run_bake\<close> reads, under their keys in \<^verbatim>\<open>_UI\<close>.\<close>

record options =
  cb_prepost_enable :: bool
  if_pre :: int
  if_post :: int
  rbg_method :: int
  cb_fallback :: bool
  cb_mute :: bool
  cb_restore :: bool
  cb_timeeditor :: bool
  cb_skip_baked :: bool
  om_first :: string
  om_last :: string
  if_start :: int
  if_end :: int

definition timeline_range :: "host \<Rightarrow> int \<Rightarrow> int \<Rightarrow> int \<times> int" where
  "timeline_range h pre post = (playback_min h - pre, playback_max h + post)"

text \<open>
  The block "Compute range" of \<^verbatim>\<open>_on_run_bake\<close> (lines 803 to 828). \<open>None\<close> is the
  \<^verbatim>\<open>return\<close> that ends the run there. The queries of the time slider and of the integer
  fields are taken to return normally, so the outer handler has nothing to catch.
\<close>

definition compute_range ::
  "options \<Rightarrow> host \<Rightarrow> int \<Rightarrow> int \<Rightarrow> session \<Rightarrow> (int \<times> int) option \<times> session" where
  "compute_range opts h pre post st =
     (if rbg_method opts = 1 then
        (case get_start_frame_from_layout_cam (scene_at h 0) (normalize_label (om_first opts)) pre of
           Ret start_frame \<Rightarrow>
             (case get_end_frame_from_layout_cam (scene_at h 0) (normalize_label (om_last opts)) post of
                Ret end_frame \<Rightarrow> (Some (start_frame, end_frame), st)
              | Raised \<Rightarrow>
                  if \<not> cb_fallback opts then (None, emit (Warn W_failed_read_head_tail) st)
                  else (Some (timeline_range h pre post),
                        emit (Warn (W_fallback_timeline (fst (timeline_range h pre post))
                                      (snd (timeline_range h pre post)))) st))
         | Raised \<Rightarrow>
             if \<not> cb_fallback opts then (None, emit (Warn W_failed_read_head_tail) st)
             else (Some (timeline_range h pre post),
                   emit (Warn (W_fallback_timeline (fst (timeline_range h pre post))
                                 (snd (timeline_range h pre post)))) st))
      else if rbg_method opts = 2 then (Some (timeline_range h pre post), st)
      else (Some (if_start opts - pre, if_end opts + post), st))"

definition validate_range :: "int \<Rightarrow> int \<Rightarrow> session \<Rightarrow> (int \<times> int) \<times> session" where
  "validate_range start_frame end_frame st =
     ((min start_frame end_frame, max start_frame end_frame),
      (if start_frame > end_frame then emit (Warn W_start_greater_than_end) st else st))"

section \<open>Muting and restoring expressions\<close>

text \<open>\<^verbatim>\<open>d[k] = v\<close> on a dictionary kept in insertion order.\<close>

fun dict_put :: "string \<Rightarrow> string \<Rightarrow> (string \<times> string) list \<Rightarrow> (string \<times> string) list" where
  "dict_put k v [] = [(k, v)]"
| "dict_put k v ((k', v') # d) = (if k' = k then (k, v) # d else (k', v') # dict_put k v d)"

text \<open>
  One round of the loop of \<^verbatim>\<open>mute_broken_expressions\<close>. Reading the script of a node
  that is not there raises; \<open>expression_edit_raises h ex s\<close> tells whether
  \<^verbatim>\<open>cmds.expression(ex, e=True, s=s)\<close> raises.
\<close>

definition mute_one :: "host \<Rightarrow> string \<Rightarrow> session \<Rightarrow> session" where
  "mute_one h ex st =
     (case expressions st ex of
        None \<Rightarrow> emit (Warn (W_could_not_mute ex)) st
      | Some script \<Rightarrow>
          (let st1 = st\<lparr>muted_expr_backup :=
                         Some (dict_put ex script (case muted_expr_backup st of None \<Rightarrow> [] | Some b \<Rightarrow> b))\<rparr>
           in if expression_edit_raises h ex [] then emit (Warn (W_could_not_mute ex)) st1
              else st1\<lparr>expressions := (expressions st1)(ex \<mapsto> [])\<rparr>))"

definition mute_broken_expressions ::
  "host \<Rightarrow> session \<Rightarrow> (string \<times> string list) list \<times> session" where
  "mute_broken_expressions h st =
     (let broken = list_broken_expressions h
      in (broken, fold (\<lambda>(ex, missing). mute_one h ex) broken (st\<lparr>muted_expr_backup := Some []\<rparr>)))"

definition restore_one :: "host \<Rightarrow> string \<times> string \<Rightarrow> session \<Rightarrow> session" where
  "restore_one h entry st =
     (case entry of (ex, script) \<Rightarrow>
        if expressions st ex \<noteq> None then
          (if expression_edit_raises h ex script then emit (Warn (W_could_not_restore ex)) st
           else st\<lparr>expressions := (expressions st)(ex \<mapsto> script)\<rparr>)
        else st)"

text \<open>
  \<^verbatim>\<open>restore_muted_expressions\<close>. The module binds \<^verbatim>\<open>_muted_expr_backup\<close> nowhere
  but in \<^verbatim>\<open>mute_broken_expressions\<close>, so reading it before that raises a NameError.
\<close>

definition restore_muted_expressions :: "host \<Rightarrow> session \<Rightarrow> pyval py \<times> session" where
  "restore_muted_expressions h st =
     (case muted_expr_backup st of
        None \<Rightarrow> (Raised, st)
      | Some backup \<Rightarrow> (Ret PyNone, (fold (restore_one h) backup st)\<lparr>muted_expr_backup := Some []\<rparr>))"

text \<open>The backup exists and has one entry for a node, as a dictionary has.\<close>

definition backup_ok :: "session \<Rightarrow> bool" where
  "backup_ok st = (case muted_expr_backup st of None \<Rightarrow> False | Some b \<Rightarrow> distinct (map fst b))"

section \<open>Running the bake\<close>

text \<open>Lines 846 to 858: which rigs go to the batch driver.\<close>

definition skip_marked :: "string list \<Rightarrow> string list \<Rightarrow> session \<Rightarrow> session" where
  "skip_marked pre_list kept st =
     fold (\<lambda>ns s. if ns \<notin> set kept then status_set ns S_skipped s else s) pre_list st"

definition bake_step ::
  "options \<Rightarrow> host \<Rightarrow> string list \<Rightarrow> int \<Rightarrow> int \<Rightarrow> session \<Rightarrow> pyval py \<times> session" where
  "bake_step opts h bake_namespaces start_frame end_frame st =
     (if bake_namespaces \<noteq> [] then
        (if cb_skip_baked opts then
           (let kept = filter (\<lambda>ns. read_bind_driver (scene_at h 0) ns \<noteq> Some 1) bake_namespaces
            in bake_selected_actors_in_range_with_progress h kept start_frame end_frame
                 (skip_marked bake_namespaces kept st))
         else bake_selected_actors_in_range_with_progress h bake_namespaces start_frame end_frame st)
      else
        (case get_all_actors_in_scene h of
           Raised \<Rightarrow> (Raised, st)
         | Ret all_actors \<Rightarrow>
             bake_selected_actors_in_range_with_progress h
               (List.map_filter
                  (\<lambda>a. case a_namespace a of
                         None \<Rightarrow> None
                       | Some ns \<Rightarrow> if truthy ns then Some ns else None)
                  all_actors)
               start_frame end_frame st))"

text \<open>\<^verbatim>\<open>_on_run_bake\<close> from the validated range on (lines 830 to 866).\<close>

definition run_with_range ::
  "options \<Rightarrow> host \<Rightarrow> bool \<Rightarrow> string list \<Rightarrow> int \<times> int \<Rightarrow> session \<Rightarrow> pyval py \<times> session" where
  "run_with_range opts h wipe_te bake_namespaces frames st =
     (case validate_range (fst frames) (snd frames) st of
        ((start_frame, end_frame), st1) \<Rightarrow>
          (let st2 = (if wipe_te then emit DeleteTimeEditor st1 else st1);
               (muted, st3) = (if cb_mute opts then mute_broken_expressions h st2 else ([], st2));
               st4 = emit (SetPlayback start_frame end_frame) st3
           in case bake_step opts h bake_namespaces start_frame end_frame st4 of
                (Raised, st5) \<Rightarrow> (Raised, st5)
              | (Ret v, st5) \<Rightarrow>
                  (case (if cb_restore opts \<and> muted \<noteq> [] then restore_muted_expressions h st5
                         else (Ret PyNone, st5)) of
                     (Raised, st6) \<Rightarrow> (Raised, st6)
                   | (Ret w, st6) \<Rightarrow>
                       (Ret PyNone,
                        populate_list (collect_filter_flags h)
                          (emit (InViewMessage start_frame end_frame) st6)))))"

definition on_run_bake :: "options \<Rightarrow> host \<Rightarrow> session \<Rightarrow> pyval py \<times> session" where
  "on_run_bake opts h st =
     (let pre = (if cb_prepost_enable opts then if_pre opts else 0);
          post = (if cb_prepost_enable opts then if_post opts else 0);
          bake_namespaces = sorted_list_of_set (MARKED_NS st)
      in if bake_namespaces = [] \<and> bake_all_dialog h \<noteq> ''Yes, bake all''
         then (Ret PyNone, emit (Warn W_bake_canceled_no_rigs) st)
         else
           (let wipe_te = (cb_timeeditor opts \<and> time_editor_dialog h = ''Yes, delete'')
            in case compute_range opts h pre post st of
                 (None, st1) \<Rightarrow> (Ret PyNone, st1)
               | (Some frames, st1) \<Rightarrow> run_with_range opts h wipe_te bake_namespaces frames st1))"

text \<open>
  What the marking operations rely on: the marks and the namespaces behind the rows of
  the list are all ids of the inventory.
\<close>

definition well_marked :: "session \<Rightarrow> bool" where
  "well_marked st =
     (MARKED_NS st \<subseteq> inventory_ids st \<and> ran (LABEL2NS st) \<subseteq> inventory_ids st)"

text \<open>
  \<open>keeps st st'\<close>: from \<open>st\<close> to \<open>st'\<close> the cache and the marks are the same, and the rows
  stand for ids of the inventory if they did before.
\<close>

definition keeps :: "session \<Rightarrow> session \<Rightarrow> bool" where
  "keeps st st' =
     (RIGS_CACHE st' = RIGS_CACHE st \<and> MARKED_NS st' = MARKED_NS st
      \<and> (ran (LABEL2NS st) \<subseteq> inventory_ids st \<longrightarrow> ran (LABEL2NS st') \<subseteq> inventory_ids st))"

section \<open>Hosts and sessions to run the model on\<close>

definition quiet_scene :: scene where
  "quiet_scene = \<lparr>objExists = (\<lambda>n. Ret False), attributeQuery_exists = (\<lambda>a n. Ret False),
     getAttr = (\<lambda>p. Raised), listRelatives_shapes = (\<lambda>c. Ret []),
     anim_camera_get_attr = (\<lambda>c a. Ret None)\<rparr>"

text \<open>A scene in which every bind driver is there and reads 1.\<close>

definition ready_scene :: scene where
  "ready_scene = \<lparr>objExists = (\<lambda>n. Ret True), attributeQuery_exists = (\<lambda>a n. Ret True),
     getAttr = (\<lambda>p. Ret 1), listRelatives_shapes = (\<lambda>c. Ret []),
     anim_camera_get_attr = (\<lambda>c a. Ret None)\<rparr>"

text \<open>
  The case folding of the hosts below: it folds the letters A to Z and leaves every other
  byte as it is, which is what \<^verbatim>\<open>str.lower\<close> does to a string whose only cased
  letters are ASCII.
\<close>

definition lower_char :: "char \<Rightarrow> char" where
  "lower_char c = (if CHR ''A'' \<le> c \<and> c \<le> CHR ''Z'' then char_of (of_char c + (32::nat)) else c)"

definition ascii_lower :: "string \<Rightarrow> string" where
  "ascii_lower s = map lower_char s"

definition no_filter :: filter_flags where
  "no_filter = \<lparr>tf_filter = [], hide_baked = False, show_only_marked = False,
     str_lower = ascii_lower\<rparr>"

text \<open>A host that never cancels, whose bakes all succeed and whose scene shows no bind driver.\<close>

definition quiet_host :: host where
  "quiet_host = \<lparr>isCancelled = (\<lambda>i. False), scene_at = (\<lambda>i. quiet_scene),
     retarget_batch = (\<lambda>i ns s e. Ret PyNone), collect_filter_flags = no_filter,
     get_all_actors_in_scene = Ret [], playback_min = 1, playback_max = 100,
     list_broken_expressions = [], expression_edit_raises = (\<lambda>ex s. False),
     bake_all_dialog = ''Cancel'', time_editor_dialog = ''Cancel''\<rparr>"

text \<open>A host on which the cancellation is seen from the second iteration on.\<close>

definition cancelling_host :: host where
  "cancelling_host = quiet_host\<lparr>isCancelled := (\<lambda>i. 2 \<le> i)\<rparr>"

text \<open>
  A host whose bake raises for the rig \<^verbatim>\<open>B\<close> and for the empty namespace, and for
  every other rig returns \<^verbatim>\<open>False\<close>, the way a call would report that it went wrong
  without raising.
\<close>

definition failing_host :: host where
  "failing_host =
     quiet_host\<lparr>retarget_batch :=
       (\<lambda>i ns s e. if ns = ''B'' \<or> ns = [] then Raised else Ret (PyBool False))\<rparr>"

text \<open>A host whose scene shows every bind driver reading 1.\<close>

definition ready_host :: host where
  "ready_host = quiet_host\<lparr>scene_at := (\<lambda>i. ready_scene)\<rparr>"

text \<open>
  The widgets with the range typed in as 1 to 10, no padding and every option off,
  among them "Skip rigs marked as Bind Driver ON".
\<close>

definition plain_options :: options where
  "plain_options = \<lparr>cb_prepost_enable = False, if_pre = 0, if_post = 0, rbg_method = 3,
     cb_fallback = False, cb_mute = False, cb_restore = False, cb_timeeditor = False,
     cb_skip_baked = False, om_first = [], om_last = [], if_start = 1, if_end = 10\<rparr>"

text \<open>The session after the rig \<^verbatim>\<open>A\<close> has been listed and marked.\<close>

definition marked_session :: session where
  "marked_session = initial_session\<lparr>
     STATUS := [''A'' \<mapsto> S_not],
     MARKED_NS := {''A''},
     RIGS_CACHE := [\<lparr>namespace = Some ''A'', actor_name = [], bind_skeleton_driver = None\<rparr>]\<rparr>"

text \<open>A host whose scene is \<open>sc\<close> and lists one actor, in the namespace \<^verbatim>\<open>A\<close>.\<close>

definition actor_host :: "scene \<Rightarrow> host" where
  "actor_host sc = quiet_host\<lparr>scene_at := (\<lambda>i. sc),
     get_all_actors_in_scene := Ret [\<lparr>a_namespace = Some ''A'', a_actor_name = ''hero''\<rparr>]\<rparr>"

text \<open>The session after the window has been opened on a scene with the one actor.\<close>

definition opened_session :: session where
  "opened_session = open_bake_ui (actor_host quiet_scene) initial_session"

text \<open>The padding that \<^verbatim>\<open>_on_run_bake\<close> computes from the widgets (lines 767 to 769).\<close>

definition pre_of :: "options \<Rightarrow> int" where
  "pre_of opts = (if cb_prepost_enable opts then if_pre opts else 0)"

definition post_of :: "options \<Rightarrow> int" where
  "post_of opts = (if cb_prepost_enable opts then if_post opts else 0)"

text \<open>The run gets as far as the frame range: rigs are marked, or the dialog said to bake all.\<close>

definition reaches_range :: "host \<Rightarrow> session \<Rightarrow> bool" where
  "reaches_range h st =
     (\<not> (sorted_list_of_set (MARKED_NS st) = [] \<and> bake_all_dialog h \<noteq> ''Yes, bake all''))"

text \<open>The range from the cameras, fallback allowed or not, everything else as in \<open>plain_options\<close>.\<close>

definition camera_options :: "bool \<Rightarrow> options" where
  "camera_options fallback = plain_options\<lparr>rbg_method := 1, cb_fallback := fallback,
     om_first := ''cam_ANIM'', om_last := ''cam_ANIM''\<rparr>"

text \<open>A scene with one broken expression, and a host whose scan reports it.\<close>

definition broken_session :: session where
  "broken_session = initial_session\<lparr>expressions := [''expr1'' \<mapsto> ''ghost.tx = 1'']\<rparr>"

definition broken_host :: host where
  "broken_host = quiet_host\<lparr>list_broken_expressions := [(''expr1'', [''ghost''])]\<rparr>"

text \<open>
  A host for a run with nothing marked: the dialog says to bake all rigs, the scene lists
  the one actor in the namespace \<^verbatim>\<open>A\<close>, and every bake raises.
\<close>

definition bake_all_host :: host where
  "bake_all_host = quiet_host\<lparr>
     get_all_actors_in_scene := Ret [\<lparr>a_namespace = Some ''A'', a_actor_name = ''hero''\<rparr>],
     retarget_batch := (\<lambda>i ns s e. Raised),
     bake_all_dialog := ''Yes, bake all''\<rparr>"

text \<open>
  The session after the window was opened on an empty scene and all rigs were baked
  once the rig \<^verbatim>\<open>A\<close> had come into the scene: no refresh has met \<^verbatim>\<open>A\<close> yet.
\<close>

definition unlisted_session :: session where
  "unlisted_session =
     snd (on_run_bake plain_options bake_all_host (open_bake_ui quiet_host initial_session))"

text \<open>A host like \<open>broken_host\<close> on which writing a script back into an expression raises.\<close>

definition locked_host :: host where
  "locked_host = broken_host\<lparr>expression_edit_raises := (\<lambda>ex s. s \<noteq> [])\<rparr>"

section \<open>The states the tool can reach\<close>

inductive reachable :: "session \<Rightarrow> bool" where
  r_init: "reachable initial_session"
| r_open: "reachable st \<Longrightarrow> reachable (open_bake_ui h st)"
| r_populate: "reachable st \<Longrightarrow> reachable (populate_list ff st)"
| r_mark: "reachable st \<Longrightarrow> reachable (mark_selected ff (selected_namespaces st labels) st)"
| r_unmark: "reachable st \<Longrightarrow> reachable (unmark_selected ff (selected_namespaces st labels) st)"
| r_toggle: "reachable st \<Longrightarrow> reachable (toggle_selected ff (selected_namespaces st labels) st)"
| r_clear: "reachable st \<Longrightarrow> reachable (clear_all_marks ff st)"
| r_hotkey: "reachable st \<Longrightarrow> reachable (hotkey_toggle_last_selected ff window labels st)"
| r_run: "reachable st \<Longrightarrow> reachable (snd (on_run_bake opts h st))"
| r_scene: "reachable st \<Longrightarrow> reachable (st\<lparr>expressions := ex\<rparr>)"

section \<open>How the pieces of the state move\<close>

lemma STATUS_status_set:
  "STATUS (status_set ns s st) x = (if truthy ns \<and> x = ns then Some s else STATUS st x)"
  by (simp add: status_set_def)

lemma STATUS_emit: "STATUS (emit e st) = STATUS st"
  by (simp add: emit_def)

lemma trace_status_set: "trace (status_set ns s st) = trace st"
  by (simp add: status_set_def)

lemma trace_emit: "trace (emit e st) = trace st @ [e]"
  by (simp add: emit_def)

lemma STATUS_populate_list: "STATUS (populate_list ff st) = STATUS st"
  by (simp add: populate_list_def Let_def)

lemma trace_populate_list: "trace (populate_list ff st) = trace st"
  by (simp add: populate_list_def Let_def)

lemma STATUS_cancel_rest:
  "STATUS (cancel_rest rs st) x = (if x \<in> set rs \<and> truthy x then Some S_canceled else STATUS st x)"
  by (induction rs arbitrary: st) (auto simp: STATUS_status_set)

lemma trace_cancel_rest: "trace (cancel_rest rs st) = trace st"
  by (induction rs arbitrary: st) (auto simp: trace_status_set)

section \<open>The batch loop\<close>

lemma fst_bake_item: "fst (bake_item h sf ef i ns st) = Ret ()"
  by (simp add: bake_item_def bake_try_def Let_def split: py.splits prod.splits)

lemma STATUS_bake_item:
  "STATUS (snd (bake_item h sf ef i ns st)) x =
     (if truthy ns \<and> x = ns then Some (item_outcome h sf ef i ns) else STATUS st x)"
  by (simp add: bake_item_def bake_try_def item_outcome_def Let_def STATUS_status_set STATUS_emit
      split: py.splits)

lemma terminal_item_outcome: "terminal (item_outcome h sf ef i ns)"
  by (simp add: item_outcome_def terminal_def split: py.splits)

lemma bake_loop_Cons:
  "bake_loop h sf ef i (ns # rest) st =
     (if isCancelled h i then (Ret (), cancel_rest (ns # rest) st)
      else bake_loop h sf ef (Suc i) rest (snd (bake_item h sf ef i ns st)))"
  using fst_bake_item [of h sf ef i ns st]
  by (cases "bake_item h sf ef i ns st") (auto split: py.splits)

lemma fst_bake_loop: "fst (bake_loop h sf ef i ids st) = Ret ()"
  by (induction ids arbitrary: i st) (simp_all add: bake_loop_Cons del: bake_loop.simps(2))

lemma bake_loop_untouched:
  "x \<notin> set ids \<Longrightarrow> STATUS (snd (bake_loop h sf ef i ids st)) x = STATUS st x"
  by (induction ids arbitrary: i st)
     (auto simp: bake_loop_Cons STATUS_bake_item STATUS_status_set STATUS_cancel_rest
           simp del: bake_loop.simps(2) cancel_rest.simps)

lemma bake_loop_keeps_settled:
  "settled st x \<Longrightarrow> settled (snd (bake_loop h sf ef i ids st)) x"
proof (induction ids arbitrary: i st)
  case Nil
  then show ?case by simp
next
  case (Cons ns rest)
  have c: "settled (cancel_rest (ns # rest) st) x"
    using Cons.prems by (simp add: settled_def STATUS_cancel_rest terminal_def del: cancel_rest.simps)
  have b: "settled (snd (bake_item h sf ef i ns st)) x"
    using Cons.prems by (simp add: settled_def STATUS_bake_item terminal_item_outcome)
  show ?case
    using c Cons.IH [OF b] by (simp add: bake_loop_Cons del: bake_loop.simps(2) cancel_rest.simps)
qed

lemma bake_loop_settles:
  "x \<in> set ids \<Longrightarrow> truthy x \<Longrightarrow> settled (snd (bake_loop h sf ef i ids st)) x"
proof (induction ids arbitrary: i st)
  case Nil
  then show ?case by simp
next
  case (Cons ns rest)
  show ?case
  proof (cases "isCancelled h i")
    case True
    then show ?thesis
      using Cons.prems by (simp add: settled_def STATUS_cancel_rest terminal_def del: cancel_rest.simps)
  next
    case False
    show ?thesis
    proof (cases "x = ns")
      case True
      have "settled (snd (bake_item h sf ef i ns st)) x"
        using True Cons.prems(2) by (simp add: settled_def STATUS_bake_item terminal_item_outcome)
      then show ?thesis
        using False by (simp add: bake_loop_Cons bake_loop_keeps_settled del: bake_loop.simps(2))
    next
      case ne: False
      then have "x \<in> set rest" using Cons.prems(1) by simp
      then show ?thesis
        using False Cons.IH Cons.prems(2) by (simp add: bake_loop_Cons del: bake_loop.simps(2))
    qed
  qed
qed

lemma driver_unfold:
  "namespaces \<noteq> [] \<Longrightarrow>
   bake_selected_actors_in_range_with_progress h namespaces sf ef st =
     (Ret PyNone, populate_list (collect_filter_flags h) (snd (bake_loop h sf ef 1 namespaces st)))"
  using fst_bake_loop [of h sf ef 1 namespaces st]
  by (cases "bake_loop h sf ef 1 namespaces st")
     (simp add: bake_selected_actors_in_range_with_progress_def)

section \<open>Claims about the batch driver\<close>

text \<open>
  C1, as the code has it. For every non-empty list of non-empty ids the batch driver ends
  normally, every id of the list then has one of the statuses baked, skipped, failed and
  canceled, and the status of every id outside the list is what it was. The statuses are
  left in the status table of the module; the call itself returns \<^verbatim>\<open>None\<close>.
\<close>

theorem driver_settles_every_id:
  assumes "namespaces \<noteq> []" and "\<forall>x\<in>set namespaces. truthy x"
  shows "fst (bake_selected_actors_in_range_with_progress h namespaces sf ef st) = Ret PyNone
       \<and> (\<forall>x\<in>set namespaces.
            terminal (status_get (snd (bake_selected_actors_in_range_with_progress h namespaces sf ef st)) x))
       \<and> (\<forall>x. x \<notin> set namespaces \<longrightarrow>
            STATUS (snd (bake_selected_actors_in_range_with_progress h namespaces sf ef st)) x = STATUS st x)"
proof -
  let ?st1 = "snd (bake_loop h sf ef 1 namespaces st)"
  have d: "bake_selected_actors_in_range_with_progress h namespaces sf ef st
             = (Ret PyNone, populate_list (collect_filter_flags h) ?st1)"
    using assms(1) by (rule driver_unfold)
  have s: "\<forall>x\<in>set namespaces. settled ?st1 x"
    using bake_loop_settles assms(2) by blast
  have u: "\<forall>x. x \<notin> set namespaces \<longrightarrow> STATUS ?st1 x = STATUS st x"
    using bake_loop_untouched by blast
  have t: "\<forall>x\<in>set namespaces. terminal (status_get (populate_list (collect_filter_flags h) ?st1) x)"
    using s by (auto simp: settled_def status_get_def STATUS_populate_list split: option.splits)
  show ?thesis using d t u by (simp add: STATUS_populate_list)
qed

theorem driver_settles_every_id_witness:
  "[''A'', ''B''] \<noteq> [] \<and> truthy ''A'' \<and> truthy ''B''
   \<and> fst (bake_selected_actors_in_range_with_progress quiet_host [''A'', ''B''] 1 10 initial_session)
       = Ret PyNone
   \<and> terminal (status_get
        (snd (bake_selected_actors_in_range_with_progress quiet_host [''A'', ''B''] 1 10 initial_session))
        ''B'')"
proof -
  have h1: "[''A'', ''B''] \<noteq> ([] :: string list)" by simp
  have h2: "\<forall>x\<in>set [''A'', ''B'']. truthy x" by (simp add: truthy_def)
  show ?thesis
    using driver_settles_every_id [OF h1 h2, of quiet_host 1 10 initial_session] h2
    by (simp add: truthy_def)
qed

text \<open>
  C1 as stated fails: the empty id is passed over by \<open>status_set\<close> and stays not baked,
  and what the call returns is \<^verbatim>\<open>None\<close>, not the status table.
\<close>

theorem driver_empty_id_counterexample:
  "status_get (snd (bake_selected_actors_in_range_with_progress quiet_host [''''] 1 10 initial_session)) ''''
     = S_not
   \<and> \<not> terminal (status_get
        (snd (bake_selected_actors_in_range_with_progress quiet_host [''''] 1 10 initial_session)) '''')
   \<and> fst (bake_selected_actors_in_range_with_progress quiet_host [''''] 1 10 initial_session)
       \<noteq> Ret (PyDict (STATUS
            (snd (bake_selected_actors_in_range_with_progress quiet_host [''''] 1 10 initial_session))))"
  by (simp add: bake_selected_actors_in_range_with_progress_def bake_item_def bake_try_def
      quiet_host_def quiet_scene_def read_bind_driver_def status_set_def truthy_def emit_def
      populate_list_def initial_session_def status_get_def terminal_def no_filter_def)

text \<open>
  C10, as the code has it. The batch driver called with an empty list returns at once:
  the whole state is what it was, so no status has changed and the host has seen no call,
  and the value returned is \<^verbatim>\<open>None\<close>.
\<close>

theorem driver_empty_list_noop:
  "bake_selected_actors_in_range_with_progress h [] sf ef st = (Ret PyNone, st)"
  by (simp add: bake_selected_actors_in_range_with_progress_def)

text \<open>
  C10 as stated fails: the call does not return an empty status map. It returns
  \<^verbatim>\<open>None\<close>, and the status table it leaves behind still has its entries.
\<close>

theorem driver_empty_list_counterexample:
  "fst (bake_selected_actors_in_range_with_progress quiet_host [] 1 10
          (initial_session\<lparr>STATUS := [''A'' \<mapsto> S_baked]\<rparr>)) \<noteq> Ret (PyDict Map.empty)
   \<and> STATUS (snd (bake_selected_actors_in_range_with_progress quiet_host [] 1 10
          (initial_session\<lparr>STATUS := [''A'' \<mapsto> S_baked]\<rparr>))) ''A'' = Some S_baked"
  by (simp add: bake_selected_actors_in_range_with_progress_def)

lemma trace_bake_item:
  "trace (snd (bake_item h sf ef i ns st)) = trace st @ item_events h sf ef i ns"
  by (simp add: bake_item_def bake_try_def item_events_def Let_def trace_status_set trace_emit
      split: py.splits)

lemma bake_loop_run_items:
  "k \<le> length ids \<Longrightarrow> \<forall>j<k. \<not> isCancelled h (i + j) \<Longrightarrow>
   bake_loop h sf ef i ids st
     = bake_loop h sf ef (i + k) (drop k ids) (run_items h sf ef i (take k ids) st)"
proof (induction k arbitrary: i ids st)
  case 0
  then show ?case by simp
next
  case (Suc k)
  then obtain ns rest where ids: "ids = ns # rest" by (cases ids) auto
  have nc: "\<not> isCancelled h i" using Suc.prems(2) by force
  have later: "\<forall>j<k. \<not> isCancelled h (Suc i + j)"
  proof (intro allI impI)
    fix j assume "j < k"
    then have "\<not> isCancelled h (i + Suc j)" using Suc.prems(2) by blast
    then show "\<not> isCancelled h (Suc i + j)" by simp
  qed
  have len: "k \<le> length rest" using Suc.prems(1) ids by simp
  show ?case
    using Suc.IH [OF len later, of "snd (bake_item h sf ef i ns st)"] nc
    by (simp add: ids bake_loop_Cons del: bake_loop.simps(2))
qed

lemma run_items_untouched:
  "x \<notin> set xs \<Longrightarrow> STATUS (run_items h sf ef i xs st) x = STATUS st x"
  by (induction xs arbitrary: i st) (auto simp: STATUS_bake_item)

lemma run_items_outcome:
  "distinct xs \<Longrightarrow> j < length xs \<Longrightarrow> truthy (xs ! j) \<Longrightarrow>
   STATUS (run_items h sf ef i xs st) (xs ! j) = Some (item_outcome h sf ef (i + j) (xs ! j))"
proof (induction xs arbitrary: i j st)
  case Nil
  then show ?case by simp
next
  case (Cons ns rest)
  show ?case
  proof (cases j)
    case 0
    then show ?thesis
      using Cons.prems by (simp add: run_items_untouched STATUS_bake_item)
  next
    case (Suc j')
    then show ?thesis
      using Cons.prems Cons.IH [of j' "Suc i" "snd (bake_item h sf ef i ns st)"] by simp
  qed
qed

lemma run_items_last:
  "truthy ns \<Longrightarrow>
   STATUS (run_items h sf ef i (xs @ [ns]) st) ns = Some (item_outcome h sf ef (i + length xs) ns)"
  by (induction xs arbitrary: i st) (simp_all add: STATUS_bake_item)

lemma trace_run_items:
  "trace (run_items h sf ef i xs st) = trace st @ events_of h sf ef i xs"
  by (induction xs arbitrary: i st) (simp_all add: trace_bake_item)

lemma trace_bake_loop_extends:
  "\<exists>evs. trace (snd (bake_loop h sf ef i ids st)) = trace st @ evs"
proof (induction ids arbitrary: i st)
  case Nil
  then show ?case by simp
next
  case (Cons ns rest)
  obtain evs where
    "trace (snd (bake_loop h sf ef (Suc i) rest (snd (bake_item h sf ef i ns st))))
       = trace (snd (bake_item h sf ef i ns st)) @ evs"
    using Cons.IH by blast
  then show ?case
    by (simp add: bake_loop_Cons trace_cancel_rest trace_bake_item del: bake_loop.simps(2) cancel_rest.simps)
qed

lemma events_of_append:
  "events_of h sf ef i (xs @ ys) = events_of h sf ef i xs @ events_of h sf ef (i + length xs) ys"
  by (induction xs arbitrary: i) simp_all

lemma bake_loop_attempts:
  assumes "j < length ids" and "\<forall>m\<le>j. \<not> isCancelled h (i + m)"
    and "read_bind_driver (scene_at h (i + j)) (ids ! j) \<noteq> Some 1"
  shows "BatchCall (ids ! j) sf ef \<in> set (trace (snd (bake_loop h sf ef i ids st)))"
proof -
  have len: "Suc j \<le> length ids" using assms(1) by simp
  have nc: "\<forall>m<Suc j. \<not> isCancelled h (i + m)" using assms(2) by (simp add: less_Suc_eq_le)
  have split: "take (Suc j) ids = take j ids @ [ids ! j]"
    using assms(1) by (simp add: take_Suc_conv_app_nth)
  have ev: "BatchCall (ids ! j) sf ef \<in> set (events_of h sf ef i (take (Suc j) ids))"
    using assms(1,3) by (simp add: split events_of_append item_events_def min_def)
  obtain evs where
    "trace (snd (bake_loop h sf ef i ids st))
       = trace (run_items h sf ef i (take (Suc j) ids) st) @ evs"
    using bake_loop_run_items [OF len nc, of sf ef st] trace_bake_loop_extends by metis
  then show ?thesis using ev by (simp add: trace_run_items)
qed

lemmas run_defs = bake_selected_actors_in_range_with_progress_def bake_item_def bake_try_def
      quiet_host_def quiet_scene_def read_bind_driver_def status_set_def truthy_def emit_def
      populate_list_def initial_session_def status_get_def no_filter_def

text \<open>
  C3, as the code has it. Take a list of ids that are non-empty and pairwise different.
  If the cancellation is first seen at the checkpoint before the item at index \<open>k\<close>
  (iteration \<open>k + 1\<close>), then every item from index \<open>k\<close> on ends canceled, every item before
  \<open>k\<close> ends with the status its own turn gave it, and the loop stops: the host has seen
  the calls of the first \<open>k\<close> items and nothing else.
\<close>

theorem cancel_before_item:
  assumes "distinct ids" and "\<forall>x\<in>set ids. truthy x" and "k < length ids"
    and "isCancelled h (Suc k)" and "\<forall>j<k. \<not> isCancelled h (Suc j)"
  shows "(\<forall>j<length ids.
            STATUS (snd (bake_selected_actors_in_range_with_progress h ids sf ef st)) (ids ! j)
              = Some (if j < k then item_outcome h sf ef (Suc j) (ids ! j) else S_canceled))
       \<and> trace (snd (bake_selected_actors_in_range_with_progress h ids sf ef st))
           = trace st @ events_of h sf ef 1 (take k ids)"
proof -
  let ?mid = "run_items h sf ef 1 (take k ids) st"
  have ne: "ids \<noteq> []" using assms(3) by auto
  have nc: "\<forall>j<k. \<not> isCancelled h (1 + j)" using assms(5) by simp
  have dk: "drop k ids = ids ! k # drop (Suc k) ids"
    using assms(3) by (simp add: Cons_nth_drop_Suc)
  have "bake_loop h sf ef 1 ids st = bake_loop h sf ef (1 + k) (drop k ids) ?mid"
    using bake_loop_run_items [OF _ nc, of ids sf ef st] assms(3) by simp
  also have "\<dots> = (Ret (), cancel_rest (drop k ids) ?mid)"
    using assms(4) by (simp add: dk bake_loop_Cons del: bake_loop.simps(2) cancel_rest.simps)
  finally have loop: "bake_loop h sf ef 1 ids st = (Ret (), cancel_rest (drop k ids) ?mid)" .
  have fin: "snd (bake_selected_actors_in_range_with_progress h ids sf ef st)
               = populate_list (collect_filter_flags h) (cancel_rest (drop k ids) ?mid)"
    using ne loop by (simp add: driver_unfold)
  have stat: "STATUS (cancel_rest (drop k ids) ?mid) (ids ! j)
               = Some (if j < k then item_outcome h sf ef (Suc j) (ids ! j) else S_canceled)"
    if j: "j < length ids" for j
  proof (cases "j < k")
    case True
    have notin: "ids ! j \<notin> set (drop k ids)"
    proof
      assume "ids ! j \<in> set (drop k ids)"
      then obtain m where m: "m < length (drop k ids)" "drop k ids ! m = ids ! j"
        by (auto simp: in_set_conv_nth)
      then have "ids ! (k + m) = ids ! j" "k + m < length ids" by auto
      then have "k + m = j" using assms(1) j by (simp add: nth_eq_iff_index_eq)
      then show False using True by simp
    qed
    have tk: "take k ids ! j = ids ! j" using True by simp
    have "STATUS ?mid (take k ids ! j) = Some (item_outcome h sf ef (1 + j) (take k ids ! j))"
      using assms(1,2,3) True j by (intro run_items_outcome) (auto simp: tk)
    then show ?thesis using True notin by (simp add: STATUS_cancel_rest tk)
  next
    case False
    then have "ids ! j \<in> set (drop k ids)"
      using j by (auto simp: in_set_conv_nth intro!: exI [of _ "j - k"])
    then show ?thesis using False assms(2) j by (simp add: STATUS_cancel_rest)
  qed
  show ?thesis
    using stat by (simp add: fin STATUS_populate_list trace_populate_list trace_cancel_rest trace_run_items)
qed

theorem cancel_before_item_witness:
  "distinct [''A'', ''B'', ''C''] \<and> truthy ''A'' \<and> truthy ''B'' \<and> truthy ''C''
   \<and> (1::nat) < length [''A'', ''B'', ''C'']
   \<and> isCancelled cancelling_host 2 \<and> \<not> isCancelled cancelling_host 1
   \<and> STATUS (snd (bake_selected_actors_in_range_with_progress cancelling_host [''A'', ''B'', ''C''] 1 10
        initial_session)) ''A'' = Some S_baked
   \<and> STATUS (snd (bake_selected_actors_in_range_with_progress cancelling_host [''A'', ''B'', ''C''] 1 10
        initial_session)) ''B'' = Some S_canceled
   \<and> STATUS (snd (bake_selected_actors_in_range_with_progress cancelling_host [''A'', ''B'', ''C''] 1 10
        initial_session)) ''C'' = Some S_canceled
   \<and> trace (snd (bake_selected_actors_in_range_with_progress cancelling_host [''A'', ''B'', ''C''] 1 10
        initial_session)) = [BatchCall ''A'' 1 10]"
proof -
  let ?ids = "[''A'', ''B'', ''C'']"
  have h1: "distinct ?ids" by simp
  have h2: "\<forall>x\<in>set ?ids. truthy x" by (simp add: truthy_def)
  have h3: "(1::nat) < length ?ids" by simp
  have h4: "isCancelled cancelling_host (Suc 1)" by (simp add: cancelling_host_def)
  have h5: "\<forall>j<1. \<not> isCancelled cancelling_host (Suc j)" by (simp add: cancelling_host_def)
  note t = cancel_before_item [OF h1 h2 h3 h4 h5, of 1 10 initial_session]
  have o: "item_outcome cancelling_host 1 10 (Suc 0) ''A'' = S_baked"
    by (simp add: item_outcome_def cancelling_host_def quiet_host_def quiet_scene_def read_bind_driver_def)
  have e: "events_of cancelling_host 1 10 1 (take 1 ?ids) = [BatchCall ''A'' 1 10]"
    by (simp add: item_events_def cancelling_host_def quiet_host_def quiet_scene_def read_bind_driver_def)
  have a: "STATUS (snd (bake_selected_actors_in_range_with_progress cancelling_host ?ids 1 10
        initial_session)) (?ids ! 0) = Some S_baked"
    using t [THEN conjunct1, rule_format, of 0] o by simp
  have b: "STATUS (snd (bake_selected_actors_in_range_with_progress cancelling_host ?ids 1 10
        initial_session)) (?ids ! 1) = Some S_canceled"
    using t [THEN conjunct1, rule_format, of 1] by simp
  have c: "STATUS (snd (bake_selected_actors_in_range_with_progress cancelling_host ?ids 1 10
        initial_session)) (?ids ! 2) = Some S_canceled"
    using t [THEN conjunct1, rule_format, of 2] by simp
  have d: "trace (snd (bake_selected_actors_in_range_with_progress cancelling_host ?ids 1 10
        initial_session)) = [BatchCall ''A'' 1 10]"
    using t [THEN conjunct2] e by (simp add: initial_session_def)
  show ?thesis using a b c d by (simp add: truthy_def cancelling_host_def)
qed

text \<open>
  C3 as stated fails for a list that repeats an id or holds an empty one. With
  \<^verbatim>\<open>['A', '', 'A']\<close> and the cancellation seen before index 1, the item at index 0
  was baked in its own turn and ends canceled, because its id comes again later, and the
  item at index 1 is passed over by \<open>status_set\<close> and does not end canceled.
\<close>

theorem cancel_before_item_counterexample:
  "isCancelled cancelling_host 2 \<and> \<not> isCancelled cancelling_host 1
   \<and> item_outcome cancelling_host 1 10 1 ''A'' = S_baked
   \<and> status_get (snd (bake_selected_actors_in_range_with_progress cancelling_host [''A'', '''', ''A''] 1 10
        initial_session)) ([''A'', '''', ''A''] ! 0) = S_canceled
   \<and> status_get (snd (bake_selected_actors_in_range_with_progress cancelling_host [''A'', '''', ''A''] 1 10
        initial_session)) ([''A'', '''', ''A''] ! 1) = S_not"
  by (simp add: run_defs cancelling_host_def item_outcome_def)

text \<open>
  C4, as the code has it. Take the item at index \<open>k\<close>, its id not empty, its turn reached
  without a cancellation and its bind driver not reading 1. The driver returns normally
  whatever the bake call of the item does. If the call raises, the status of the item is
  failed after its turn; if the call returns, the status is baked whatever value came back,
  for the driver never looks at the value. Either way the loop goes on from there with the
  items behind it; the status is still the same at the end unless the same id comes again
  later in the list; and every later item whose turn is reached without a cancellation and
  whose bind driver does not read 1 gets its bake call.
\<close>

theorem failure_is_contained:
  assumes "k < length ids" and "\<forall>j\<le>k. \<not> isCancelled h (Suc j)" and "truthy (ids ! k)"
    and "read_bind_driver (scene_at h (Suc k)) (ids ! k) \<noteq> Some 1"
  shows "fst (bake_selected_actors_in_range_with_progress h ids sf ef st) = Ret PyNone
       \<and> STATUS (run_items h sf ef 1 (take (Suc k) ids) st) (ids ! k)
           = Some (case retarget_batch h (Suc k) (ids ! k) sf ef of
                     Raised \<Rightarrow> S_failed | Ret v \<Rightarrow> S_baked)
       \<and> bake_loop h sf ef 1 ids st
           = bake_loop h sf ef (Suc (Suc k)) (drop (Suc k) ids) (run_items h sf ef 1 (take (Suc k) ids) st)
       \<and> (ids ! k \<notin> set (drop (Suc k) ids) \<longrightarrow>
            status_get (snd (bake_selected_actors_in_range_with_progress h ids sf ef st)) (ids ! k)
              = (case retarget_batch h (Suc k) (ids ! k) sf ef of
                   Raised \<Rightarrow> S_failed | Ret v \<Rightarrow> S_baked))
       \<and> (\<forall>j. k < j \<and> j < length ids \<and> (\<forall>m\<le>j. \<not> isCancelled h (Suc m))
               \<and> read_bind_driver (scene_at h (Suc j)) (ids ! j) \<noteq> Some 1
             \<longrightarrow> BatchCall (ids ! j) sf ef
                   \<in> set (trace (snd (bake_selected_actors_in_range_with_progress h ids sf ef st))))"
proof -
  let ?mid = "run_items h sf ef 1 (take (Suc k) ids) st"
  let ?out = "case retarget_batch h (Suc k) (ids ! k) sf ef of Raised \<Rightarrow> S_failed | Ret v \<Rightarrow> S_baked"
  have ne: "ids \<noteq> []" using assms(1) by auto
  have fin: "bake_selected_actors_in_range_with_progress h ids sf ef st
               = (Ret PyNone, populate_list (collect_filter_flags h) (snd (bake_loop h sf ef 1 ids st)))"
    using ne by (rule driver_unfold)
  have split: "take (Suc k) ids = take k ids @ [ids ! k]"
    using assms(1) by (simp add: take_Suc_conv_app_nth)
  have out: "item_outcome h sf ef (Suc k) (ids ! k) = ?out"
    using assms(4) by (simp add: item_outcome_def)
  have mid: "STATUS ?mid (ids ! k) = Some ?out"
    using run_items_last [OF assms(3), of h sf ef 1 "take k ids" st] assms(1) out
    by (simp add: split min_def)
  have nc: "\<forall>j<Suc k. \<not> isCancelled h (1 + j)" using assms(2) by (simp add: less_Suc_eq_le)
  have cont: "bake_loop h sf ef 1 ids st = bake_loop h sf ef (Suc (Suc k)) (drop (Suc k) ids) ?mid"
    using bake_loop_run_items [OF _ nc, of ids sf ef st] assms(1) by simp
  have final: "status_get (snd (bake_selected_actors_in_range_with_progress h ids sf ef st)) (ids ! k) = ?out"
    if "ids ! k \<notin> set (drop (Suc k) ids)"
  proof -
    have "STATUS (snd (bake_loop h sf ef 1 ids st)) (ids ! k) = STATUS ?mid (ids ! k)"
      unfolding cont using that by (rule bake_loop_untouched)
    then show ?thesis
      using mid unfolding fin by (simp add: status_get_def STATUS_populate_list)
  qed
  have later: "BatchCall (ids ! j) sf ef
                 \<in> set (trace (snd (bake_selected_actors_in_range_with_progress h ids sf ef st)))"
    if "j < length ids" "\<forall>m\<le>j. \<not> isCancelled h (Suc m)"
       "read_bind_driver (scene_at h (Suc j)) (ids ! j) \<noteq> Some 1" for j
    using bake_loop_attempts [of j ids h 1 sf ef st] that by (simp add: fin trace_populate_list)
  show ?thesis using mid cont final later by (simp add: fin)
qed

theorem failure_is_contained_witness:
  "(1::nat) < length [''A'', ''B'', ''C'']
   \<and> \<not> isCancelled failing_host 1 \<and> \<not> isCancelled failing_host 2
   \<and> truthy ''A'' \<and> truthy ''B''
   \<and> read_bind_driver (scene_at failing_host 1) ''A'' \<noteq> Some 1
   \<and> read_bind_driver (scene_at failing_host 2) ''B'' \<noteq> Some 1
   \<and> retarget_batch failing_host 2 ''B'' 1 10 = Raised
   \<and> retarget_batch failing_host 1 ''A'' 1 10 = Ret (PyBool False)
   \<and> fst (bake_selected_actors_in_range_with_progress failing_host [''A'', ''B'', ''C''] 1 10 initial_session)
       = Ret PyNone
   \<and> status_get (snd (bake_selected_actors_in_range_with_progress failing_host [''A'', ''B'', ''C''] 1 10
        initial_session)) ''B'' = S_failed
   \<and> status_get (snd (bake_selected_actors_in_range_with_progress failing_host [''A'', ''B'', ''C''] 1 10
        initial_session)) ''A'' = S_baked
   \<and> BatchCall ''C'' 1 10 \<in> set (trace (snd (bake_selected_actors_in_range_with_progress failing_host
        [''A'', ''B'', ''C''] 1 10 initial_session)))"
proof -
  let ?ids = "[''A'', ''B'', ''C'']"
  have h1: "(1::nat) < length ?ids" by simp
  have h2: "\<forall>j\<le>1. \<not> isCancelled failing_host (Suc j)"
    by (simp add: failing_host_def quiet_host_def)
  have h3: "truthy (?ids ! 1)" by (simp add: truthy_def)
  have h4: "read_bind_driver (scene_at failing_host (Suc 1)) (?ids ! 1) \<noteq> Some 1"
    by (simp add: failing_host_def quiet_host_def quiet_scene_def read_bind_driver_def)
  have g1: "(0::nat) < length ?ids" by simp
  have g2: "\<forall>j\<le>0. \<not> isCancelled failing_host (Suc j)"
    by (simp add: failing_host_def quiet_host_def)
  have g3: "truthy (?ids ! 0)" by (simp add: truthy_def)
  have g4: "read_bind_driver (scene_at failing_host (Suc 0)) (?ids ! 0) \<noteq> Some 1"
    by (simp add: failing_host_def quiet_host_def quiet_scene_def read_bind_driver_def)
  note t = failure_is_contained [OF h1 h2 h3 h4, of 1 10 initial_session]
  note u = failure_is_contained [OF g1 g2 g3 g4, of 1 10 initial_session]
  have a: "fst (bake_selected_actors_in_range_with_progress failing_host ?ids 1 10 initial_session) = Ret PyNone"
    using t by blast
  have b: "status_get (snd (bake_selected_actors_in_range_with_progress failing_host ?ids 1 10
        initial_session)) (?ids ! 1) = S_failed"
    using t [THEN conjunct2, THEN conjunct2, THEN conjunct2, THEN conjunct1]
    by (simp add: failing_host_def)
  have b': "status_get (snd (bake_selected_actors_in_range_with_progress failing_host ?ids 1 10
        initial_session)) (?ids ! 0) = S_baked"
    using u [THEN conjunct2, THEN conjunct2, THEN conjunct2, THEN conjunct1]
    by (simp add: failing_host_def)
  have c: "BatchCall (?ids ! 2) 1 10 \<in> set (trace (snd (bake_selected_actors_in_range_with_progress
        failing_host ?ids 1 10 initial_session)))"
    using t [THEN conjunct2, THEN conjunct2, THEN conjunct2, THEN conjunct2, rule_format, of 2]
    by (simp add: failing_host_def quiet_host_def quiet_scene_def read_bind_driver_def)
  show ?thesis
    using a b b' c
    by (simp add: truthy_def failing_host_def quiet_host_def quiet_scene_def read_bind_driver_def)
qed

text \<open>
  C4 as stated fails in two places. For an empty id whose bake raises, \<open>status_set\<close>
  passes the id over and the item is not failed afterwards. And a bake call that reports
  its failure by the value it returns, without raising, leaves the item baked, not failed.
\<close>

theorem failure_is_contained_counterexample:
  "retarget_batch failing_host 1 '''' 1 10 = Raised
   \<and> \<not> isCancelled failing_host 1
   \<and> read_bind_driver (scene_at failing_host 1) '''' \<noteq> Some 1
   \<and> status_get (snd (bake_selected_actors_in_range_with_progress failing_host [''''] 1 10
        initial_session)) '''' = S_not
   \<and> status_get (snd (bake_selected_actors_in_range_with_progress failing_host [''''] 1 10
        initial_session)) '''' \<noteq> S_failed
   \<and> retarget_batch failing_host 1 ''A'' 1 10 = Ret (PyBool False)
   \<and> read_bind_driver (scene_at failing_host 1) ''A'' \<noteq> Some 1
   \<and> status_get (snd (bake_selected_actors_in_range_with_progress failing_host [''A''] 1 10
        initial_session)) ''A'' = S_baked
   \<and> status_get (snd (bake_selected_actors_in_range_with_progress failing_host [''A''] 1 10
        initial_session)) ''A'' \<noteq> S_failed"
  by (simp add: run_defs failing_host_def)

section \<open>The skip option\<close>

lemma ready_bind_driver: "read_bind_driver (scene_at ready_host i) ns = Some 1"
  by (simp add: ready_host_def ready_scene_def read_bind_driver_def)

lemma ready_loop:
  "bake_loop ready_host sf ef i [ns] st = (Ret (), status_set ns S_skipped st)"
proof -
  have c: "\<not> isCancelled ready_host i" by (simp add: ready_host_def quiet_host_def)
  have b: "bake_item ready_host sf ef i ns st = (Ret (), status_set ns S_skipped st)"
    by (simp add: bake_item_def bake_try_def ready_bind_driver)
  show ?thesis using c b by simp
qed

lemma ready_step:
  "bake_step plain_options ready_host [''A''] 1 10 st
     = (Ret PyNone, populate_list no_filter (status_set ''A'' S_skipped st))"
proof -
  have f: "collect_filter_flags ready_host = no_filter" by (simp add: ready_host_def quiet_host_def)
  have o: "\<not> cb_skip_baked plain_options" by (simp add: plain_options_def)
  show ?thesis using o by (simp add: bake_step_def driver_unfold ready_loop f del: bake_loop.simps)
qed

lemma plain_range:
  "compute_range plain_options h 0 0 st = (Some (1, 10), st)"
  by (simp add: compute_range_def plain_options_def)

text \<open>
  C2: the code does not do what the claim says. Run the bake with the option
  "Skip rigs marked as Bind Driver ON" unchecked, the rig \<^verbatim>\<open>A\<close> marked and its bind
  driver reading 1. The claim has \<^verbatim>\<open>A\<close> baked. The loop of the batch driver looks
  at the bind driver alone, so \<^verbatim>\<open>A\<close> ends skipped and the host sees no bake call;
  \<^verbatim>\<open>bake_selected_actors_in_range\<close>, given the same rig with the option off, does
  make the call.
\<close>

theorem skip_unchecked_still_skips:
  "\<not> cb_skip_baked plain_options
   \<and> sorted_list_of_set (MARKED_NS marked_session) = [''A'']
   \<and> read_bind_driver (scene_at ready_host 1) ''A'' = Some 1
   \<and> \<not> isCancelled ready_host 1
   \<and> fst (on_run_bake plain_options ready_host marked_session) = Ret PyNone
   \<and> STATUS (snd (on_run_bake plain_options ready_host marked_session)) ''A'' = Some S_skipped
   \<and> trace (snd (on_run_bake plain_options ready_host marked_session))
       = [SetPlayback 1 10, InViewMessage 1 10]
   \<and> trace (snd (bake_selected_actors_in_range ready_host [''A''] 1 10 False marked_session))
       = [BatchCall ''A'' 1 10]"
proof -
  have m: "sorted_list_of_set (MARKED_NS marked_session) = [''A'']"
    by (simp add: marked_session_def initial_session_def)
  have o: "\<not> cb_skip_baked plain_options" "\<not> cb_prepost_enable plain_options"
    "\<not> cb_timeeditor plain_options" "\<not> cb_mute plain_options" "\<not> cb_restore plain_options"
    by (simp_all add: plain_options_def)
  have c: "\<not> isCancelled ready_host 1" by (simp add: ready_host_def quiet_host_def)
  have run: "on_run_bake plain_options ready_host marked_session
      = (Ret PyNone, populate_list (collect_filter_flags ready_host)
           (emit (InViewMessage 1 10)
              (populate_list no_filter
                 (status_set ''A'' S_skipped (emit (SetPlayback 1 10) marked_session)))))"
    by (simp add: on_run_bake_def m o plain_range run_with_range_def validate_range_def ready_step)
  have t: "trace marked_session = []" by (simp add: marked_session_def initial_session_def)
  have b: "retarget_batch ready_host i ns 1 10 = Ret PyNone" for i ns
    by (simp add: ready_host_def quiet_host_def)
  have s: "trace (snd (bake_selected_actors_in_range ready_host [''A''] 1 10 False marked_session))
       = [BatchCall ''A'' 1 10]"
    by (simp add: bake_selected_actors_in_range_def b trace_emit t)
  show ?thesis
    using m o(1) c s ready_bind_driver [of 1 "''A''"]
    by (simp add: run STATUS_populate_list STATUS_emit STATUS_status_set trace_populate_list
        trace_emit trace_status_set truthy_def t)
qed

section \<open>Seeding the status table\<close>

lemma STATUS_status_init_from_bind:
  "STATUS (status_init_from_bind ns b st) x =
     (if x = ns \<and> STATUS st ns = None then Some (if b = Some 1 then S_baked else S_not)
      else STATUS st x)"
  by (auto simp: status_init_from_bind_def dom_def)

lemma seed_statuses_keeps:
  "STATUS st x = Some s \<Longrightarrow> STATUS (seed_statuses rs st) x = Some s"
  by (induction rs arbitrary: st)
     (auto simp: STATUS_status_init_from_bind split: option.splits)

lemma seed_statuses_falsy:
  "\<not> truthy x \<Longrightarrow> STATUS (seed_statuses rs st) x = STATUS st x"
  by (induction rs arbitrary: st)
     (auto simp: STATUS_status_init_from_bind split: option.splits)

lemma seed_statuses_first:
  "STATUS st x = None \<Longrightarrow> truthy x \<Longrightarrow> find (\<lambda>r. namespace r = Some x) rs = Some r \<Longrightarrow>
   STATUS (seed_statuses rs st) x = Some (if bind_skeleton_driver r = Some 1 then S_baked else S_not)"
proof (induction rs arbitrary: st)
  case Nil
  then show ?case by simp
next
  case (Cons a rs)
  show ?case
  proof (cases "namespace a = Some x")
    case True
    then have r: "r = a" using Cons.prems(3) by simp
    show ?thesis
      using True Cons.prems(1,2)
      by (simp add: r seed_statuses_keeps STATUS_status_init_from_bind)
  next
    case False
    then have f: "find (\<lambda>r. namespace r = Some x) rs = Some r" using Cons.prems(3) by simp
    have "STATUS (case namespace a of None \<Rightarrow> st
             | Some ns \<Rightarrow> if truthy ns then status_init_from_bind ns (bind_skeleton_driver a) st else st) x
           = None"
      using False Cons.prems(1) by (auto simp: STATUS_status_init_from_bind split: option.splits)
    then show ?thesis using Cons.IH [OF _ Cons.prems(2) f] by simp
  qed
qed

lemma refresh_keeps:
  "STATUS st x = Some s \<Longrightarrow> STATUS (refresh_rigs_cache h st) x = Some s"
  by (simp add: refresh_rigs_cache_def Let_def seed_statuses_keeps)

lemma refreshes_keeps:
  "STATUS st x = Some s \<Longrightarrow> STATUS (refreshes hs st) x = Some s"
  by (induction hs arbitrary: st) (simp_all add: refresh_keeps)

lemma refresh_falsy:
  "\<not> truthy x \<Longrightarrow> STATUS (refresh_rigs_cache h st) x = STATUS st x"
  by (simp add: refresh_rigs_cache_def Let_def seed_statuses_falsy)

lemma refreshes_falsy:
  "\<not> truthy x \<Longrightarrow> STATUS (refreshes hs st) x = STATUS st x"
  by (induction hs arbitrary: st) (simp_all add: refresh_falsy)

lemma list_scene_rigs_falsy:
  "find (\<lambda>r. namespace r = Some x) (list_scene_rigs sc actors) = Some r \<Longrightarrow> \<not> truthy x \<Longrightarrow>
   bind_skeleton_driver r = None"
proof -
  assume f: "find (\<lambda>r. namespace r = Some x) (list_scene_rigs sc actors) = Some r" and t: "\<not> truthy x"
  then have "r \<in> set (list_scene_rigs sc actors)" "namespace r = Some x"
    by (auto simp: find_Some_iff)
  then show ?thesis using t by (auto simp: list_scene_rigs_def Let_def)
qed

text \<open>
  C5, as the code has it. Whatever refreshes follow, a status that an id has is never
  written over by the seeding, also when the bind driver of the id reads something else by
  then. And a refresh that meets an id the status table has no entry for seeds it from the
  bind driver this refresh has read for it, baked if that is 1 and not baked otherwise (an
  empty namespace gets no entry and reads as not baked), and every later refresh leaves it
  so. An id that has its status from a bake, given before any refresh has met the id, is
  not seeded by the refresh that meets it first.
\<close>

theorem seeded_once:
  "(STATUS st ns = Some s \<longrightarrow> STATUS (refreshes hs st) ns = Some s)
   \<and> (STATUS st ns = None
        \<and> find (\<lambda>r. namespace r = Some ns)
             (list_scene_rigs (scene_at h 0) (get_all_actors_in_scene h)) = Some r
      \<longrightarrow> status_get (refreshes (h # hs) st) ns
            = (if bind_skeleton_driver r = Some 1 then S_baked else S_not)
          \<and> (truthy ns \<longrightarrow> STATUS (refreshes (h # hs) st) ns
                = Some (if bind_skeleton_driver r = Some 1 then S_baked else S_not)))"
proof (intro conjI impI)
  assume "STATUS st ns = Some s"
  then show "STATUS (refreshes hs st) ns = Some s" by (rule refreshes_keeps)
next
  assume a: "STATUS st ns = None
        \<and> find (\<lambda>r. namespace r = Some ns)
             (list_scene_rigs (scene_at h 0) (get_all_actors_in_scene h)) = Some r"
  show "status_get (refreshes (h # hs) st) ns
            = (if bind_skeleton_driver r = Some 1 then S_baked else S_not)"
  proof (cases "truthy ns")
    case True
    have "STATUS (refresh_rigs_cache h st) ns
            = Some (if bind_skeleton_driver r = Some 1 then S_baked else S_not)"
      using a True by (simp add: refresh_rigs_cache_def Let_def seed_statuses_first)
    then show ?thesis by (simp add: status_get_def refreshes_keeps)
  next
    case False
    have "bind_skeleton_driver r = None" using a False list_scene_rigs_falsy by blast
    then show ?thesis using a False by (simp add: status_get_def refreshes_falsy refresh_falsy)
  qed
next
  assume a: "STATUS st ns = None
        \<and> find (\<lambda>r. namespace r = Some ns)
             (list_scene_rigs (scene_at h 0) (get_all_actors_in_scene h)) = Some r"
    and t: "truthy ns"
  have "STATUS (refresh_rigs_cache h st) ns
          = Some (if bind_skeleton_driver r = Some 1 then S_baked else S_not)"
    using a t by (simp add: refresh_rigs_cache_def Let_def seed_statuses_first)
  then show "STATUS (refreshes (h # hs) st) ns
          = Some (if bind_skeleton_driver r = Some 1 then S_baked else S_not)"
    by (simp add: refreshes_keeps)
qed

lemma actor_rigs:
  "list_scene_rigs (scene_at (actor_host ready_scene) 0) (get_all_actors_in_scene (actor_host ready_scene))
     = [\<lparr>namespace = Some ''A'', actor_name = ''hero'', bind_skeleton_driver = Some 1\<rparr>]"
  by (simp add: actor_host_def quiet_host_def list_scene_rigs_def truthy_def read_bind_driver_def
      ready_scene_def)

theorem seeded_once_witness:
  "STATUS (initial_session\<lparr>STATUS := [''A'' \<mapsto> S_failed]\<rparr>) ''A'' = Some S_failed
   \<and> STATUS (refreshes [actor_host ready_scene, actor_host quiet_scene]
        (initial_session\<lparr>STATUS := [''A'' \<mapsto> S_failed]\<rparr>)) ''A'' = Some S_failed
   \<and> STATUS initial_session ''A'' = None
   \<and> find (\<lambda>r. namespace r = Some ''A'')
        (list_scene_rigs (scene_at (actor_host ready_scene) 0)
           (get_all_actors_in_scene (actor_host ready_scene)))
       = Some \<lparr>namespace = Some ''A'', actor_name = ''hero'', bind_skeleton_driver = Some 1\<rparr>
   \<and> read_bind_driver (scene_at (actor_host quiet_scene) 0) ''A'' = None
   \<and> status_get (refreshes [actor_host ready_scene, actor_host quiet_scene, actor_host quiet_scene]
        initial_session) ''A'' = S_baked"
proof -
  let ?r = "\<lparr>namespace = Some ''A'', actor_name = ''hero'', bind_skeleton_driver = Some (1::int)\<rparr>"
  have h1: "STATUS (initial_session\<lparr>STATUS := [''A'' \<mapsto> S_failed]\<rparr>) ''A'' = Some S_failed"
    by simp
  have h2: "STATUS initial_session ''A'' = None" by (simp add: initial_session_def)
  have h3: "find (\<lambda>r. namespace r = Some ''A'')
        (list_scene_rigs (scene_at (actor_host ready_scene) 0)
           (get_all_actors_in_scene (actor_host ready_scene))) = Some ?r"
    by (simp add: actor_rigs)
  have q: "read_bind_driver (scene_at (actor_host quiet_scene) 0) ''A'' = None"
    by (simp add: actor_host_def quiet_scene_def read_bind_driver_def)
  have a: "STATUS (refreshes [actor_host ready_scene, actor_host quiet_scene]
        (initial_session\<lparr>STATUS := [''A'' \<mapsto> S_failed]\<rparr>)) ''A'' = Some S_failed"
    using seeded_once [where st = "initial_session\<lparr>STATUS := [''A'' \<mapsto> S_failed]\<rparr>"
        and ns = "''A''" and s = S_failed and hs = "[actor_host ready_scene, actor_host quiet_scene]"] h1
    by blast
  have b: "status_get (refreshes [actor_host ready_scene, actor_host quiet_scene, actor_host quiet_scene]
        initial_session) ''A'' = S_baked"
    using seeded_once [where st = initial_session and ns = "''A''" and h = "actor_host ready_scene"
        and r = ?r and hs = "[actor_host quiet_scene, actor_host quiet_scene]"] h2 h3
    by simp
  show ?thesis using h1 a h2 h3 q b by blast
qed

section \<open>The marks and the inventory\<close>

lemma set_map_filter_iff:
  "y \<in> set (List.map_filter f xs) \<longleftrightarrow> (\<exists>x\<in>set xs. f x = Some y)"
  by (induction xs) (auto split: option.splits)

lemma mem_scene_namespaces:
  "ns \<in> scene_namespaces rigs \<longleftrightarrow> (\<exists>r\<in>set rigs. namespace r = Some ns \<and> truthy ns)"
  by (auto simp: scene_namespaces_def rig_namespaces_def set_map_filter_iff split: option.splits if_splits)

lemma populate_rows_sound:
  "(l, ns) \<in> set (populate_rows ff st rigs) \<Longrightarrow> ns \<in> scene_namespaces rigs"
  by (induction rigs) (auto simp: mem_scene_namespaces Let_def split: option.splits if_splits)

lemma RIGS_CACHE_populate_list: "RIGS_CACHE (populate_list ff st) = RIGS_CACHE st"
  by (simp add: populate_list_def Let_def)

lemma MARKED_NS_populate_list: "MARKED_NS (populate_list ff st) = MARKED_NS st"
  by (simp add: populate_list_def Let_def)

lemma ran_LABEL2NS_populate_list:
  "ran (LABEL2NS (populate_list ff st)) \<subseteq> inventory_ids st"
proof
  fix ns assume "ns \<in> ran (LABEL2NS (populate_list ff st))"
  then obtain l where "map_of (rev (populate_rows ff st (RIGS_CACHE st))) l = Some ns"
    by (auto simp: ran_def populate_list_def Let_def)
  then have "(l, ns) \<in> set (populate_rows ff st (RIGS_CACHE st))"
    using map_of_SomeD by fastforce
  then show "ns \<in> inventory_ids st"
    by (simp add: inventory_ids_def populate_rows_sound)
qed

lemma inventory_ids_cong: "RIGS_CACHE st' = RIGS_CACHE st \<Longrightarrow> inventory_ids st' = inventory_ids st"
  by (simp add: inventory_ids_def)

lemma keeps_refl: "keeps st st"
  by (simp add: keeps_def)

lemma keeps_well_marked: "keeps st st' \<Longrightarrow> well_marked st \<Longrightarrow> well_marked st'"
  by (auto simp: keeps_def well_marked_def inventory_ids_def)

lemma keeps_same:
  "keeps st st1 \<Longrightarrow> RIGS_CACHE st2 = RIGS_CACHE st1 \<Longrightarrow> MARKED_NS st2 = MARKED_NS st1 \<Longrightarrow>
   LABEL2NS st2 = LABEL2NS st1 \<Longrightarrow> keeps st st2"
  by (simp add: keeps_def)

lemma keeps_populate_list: "keeps st st1 \<Longrightarrow> keeps st (populate_list ff st1)"
  using ran_LABEL2NS_populate_list [of ff st1]
  by (simp add: keeps_def RIGS_CACHE_populate_list MARKED_NS_populate_list inventory_ids_def)

lemma keeps_status_set: "keeps st st1 \<Longrightarrow> keeps st (status_set ns s st1)"
  by (erule keeps_same) (simp_all add: status_set_def)

lemma keeps_emit: "keeps st st1 \<Longrightarrow> keeps st (emit e st1)"
  by (erule keeps_same) (simp_all add: emit_def)

lemma keeps_cancel_rest: "keeps st st1 \<Longrightarrow> keeps st (cancel_rest rs st1)"
  by (induction rs arbitrary: st1) (simp_all add: keeps_status_set)

lemma keeps_bake_item: "keeps st st1 \<Longrightarrow> keeps st (snd (bake_item h sf ef i ns st1))"
  by (simp add: bake_item_def bake_try_def Let_def keeps_status_set keeps_emit split: py.splits)

lemma keeps_bake_loop: "keeps st st1 \<Longrightarrow> keeps st (snd (bake_loop h sf ef i ids st1))"
  by (induction ids arbitrary: i st1)
     (simp_all add: bake_loop_Cons keeps_cancel_rest keeps_bake_item keeps_status_set
        del: bake_loop.simps(2) cancel_rest.simps)

lemma keeps_driver:
  "keeps st st1 \<Longrightarrow> keeps st (snd (bake_selected_actors_in_range_with_progress h ids sf ef st1))"
  by (simp add: bake_selected_actors_in_range_with_progress_def case_prod_beta keeps_populate_list
      keeps_bake_loop split: py.splits)

lemma keeps_fold:
  assumes "\<And>x s. keeps st s \<Longrightarrow> keeps st (f x s)"
  shows "keeps st st1 \<Longrightarrow> keeps st (fold f xs st1)"
  by (induction xs arbitrary: st1) (simp_all add: assms)

lemma keeps_skip_marked: "keeps st st1 \<Longrightarrow> keeps st (skip_marked pre_list kept st1)"
  unfolding skip_marked_def by (rule keeps_fold) (simp_all add: keeps_status_set)

lemma keeps_bake_step:
  "keeps st st1 \<Longrightarrow> keeps st (snd (bake_step opts h bake_namespaces sf ef st1))"
  by (simp add: bake_step_def Let_def keeps_driver keeps_skip_marked split: py.splits)

lemma keeps_mute_one: "keeps st st1 \<Longrightarrow> keeps st (mute_one h ex st1)"
  by (erule keeps_same) (simp_all add: mute_one_def emit_def Let_def split: option.splits)

lemma keeps_mute:
  "keeps st st1 \<Longrightarrow> keeps st (snd (mute_broken_expressions h st1))"
proof -
  assume k: "keeps st st1"
  have "keeps st (st1\<lparr>muted_expr_backup := Some []\<rparr>)"
    using k by (rule keeps_same) simp_all
  then have "keeps st (fold (\<lambda>(ex, missing). mute_one h ex) (list_broken_expressions h)
                         (st1\<lparr>muted_expr_backup := Some []\<rparr>))"
    by (rule keeps_fold [rotated]) (auto simp: keeps_mute_one)
  then show ?thesis by (simp add: mute_broken_expressions_def Let_def)
qed

lemma keeps_restore_one: "keeps st st1 \<Longrightarrow> keeps st (restore_one h entry st1)"
  by (erule keeps_same) (simp_all add: restore_one_def emit_def split: prod.splits)

lemma keeps_restore:
  "keeps st st1 \<Longrightarrow> keeps st (snd (restore_muted_expressions h st1))"
proof (cases "muted_expr_backup st1")
  case None
  assume "keeps st st1"
  then show ?thesis using None by (simp add: restore_muted_expressions_def)
next
  case (Some backup)
  assume "keeps st st1"
  then have "keeps st (fold (restore_one h) backup st1)"
    by (rule keeps_fold [rotated]) (simp add: keeps_restore_one)
  then have "keeps st ((fold (restore_one h) backup st1)\<lparr>muted_expr_backup := Some []\<rparr>)"
    by (rule keeps_same) simp_all
  then show ?thesis using Some by (simp add: restore_muted_expressions_def)
qed

lemma keeps_validate_range: "keeps st st1 \<Longrightarrow> keeps st (snd (validate_range s e st1))"
  by (simp add: validate_range_def keeps_emit)

lemma keeps_compute_range: "keeps st st1 \<Longrightarrow> keeps st (snd (compute_range opts h pre post st1))"
  by (simp add: compute_range_def keeps_emit split: py.splits)

lemma keeps_run_with_range:
  "keeps st st0 \<Longrightarrow> keeps st (snd (run_with_range opts h wipe_te bake_namespaces frames st0))"
  by (simp add: run_with_range_def Let_def case_prod_beta keeps_populate_list keeps_emit
      keeps_restore keeps_bake_step keeps_mute keeps_validate_range split: py.splits)

lemma keeps_on_run_bake: "keeps st (snd (on_run_bake opts h st))"
  by (simp add: on_run_bake_def Let_def case_prod_beta keeps_refl keeps_emit keeps_compute_range
      keeps_run_with_range split: option.splits)

lemma set_selected_namespaces: "set (selected_namespaces st labels) \<subseteq> ran (LABEL2NS st)"
  by (auto simp: selected_namespaces_def set_map_filter_iff ran_def)

lemma selected_namespaces_known:
  "selected_namespaces st labels = selected_namespaces st (filter (\<lambda>l. LABEL2NS st l \<noteq> None) labels)"
  unfolding selected_namespaces_def by (induction labels) (auto split: option.splits)

lemma fold_insert_marks: "fold insert xs M = M \<union> set xs"
  by (induction xs arbitrary: M) auto

lemma fold_discard_marks: "fold (\<lambda>ns M. M - {ns}) xs M = M - set xs"
  by (induction xs arbitrary: M) auto

lemma fold_toggle_marks: "fold toggle_one xs M \<subseteq> M \<union> set xs"
proof (induction xs arbitrary: M)
  case Nil
  then show ?case by simp
next
  case (Cons x xs)
  have "fold toggle_one xs (toggle_one x M) \<subseteq> toggle_one x M \<union> set xs" by (rule Cons.IH)
  also have "\<dots> \<subseteq> M \<union> set (x # xs)" by (auto simp: toggle_one_def)
  finally show ?case by simp
qed

lemma seed_statuses_fields:
  "RIGS_CACHE (seed_statuses rs st) = RIGS_CACHE st"
  "MARKED_NS (seed_statuses rs st) = MARKED_NS st"
  by (induction rs arbitrary: st) (simp_all add: status_init_from_bind_def split: option.splits)

lemma MARKED_NS_refresh:
  "MARKED_NS (refresh_rigs_cache h st) = MARKED_NS st \<inter> inventory_ids (refresh_rigs_cache h st)"
  by (simp add: refresh_rigs_cache_def Let_def seed_statuses_fields inventory_ids_def)

lemma well_marked_populate:
  "MARKED_NS st \<subseteq> inventory_ids st \<Longrightarrow> well_marked (populate_list ff st)"
  using ran_LABEL2NS_populate_list [of ff st]
  by (simp add: well_marked_def MARKED_NS_populate_list inventory_ids_def RIGS_CACHE_populate_list)

lemma well_marked_remarked:
  "well_marked st \<Longrightarrow> M \<subseteq> MARKED_NS st \<union> ran (LABEL2NS st) \<Longrightarrow>
   well_marked (populate_list ff (st\<lparr>MARKED_NS := M\<rparr>))"
  by (rule well_marked_populate) (auto simp: well_marked_def inventory_ids_def)

lemma reachable_well_marked: "reachable st \<Longrightarrow> well_marked st"
proof (induction rule: reachable.induct)
  case r_init
  show ?case by (simp add: well_marked_def initial_session_def)
next
  case (r_open st h)
  show ?case
    unfolding open_bake_ui_def by (rule well_marked_populate) (simp add: MARKED_NS_refresh)
next
  case (r_populate st ff)
  then have "MARKED_NS st \<subseteq> inventory_ids st" by (simp add: well_marked_def)
  then show ?case by (rule well_marked_populate)
next
  case (r_mark st ff labels)
  have "fold insert (selected_namespaces st labels) (MARKED_NS st) \<subseteq> MARKED_NS st \<union> ran (LABEL2NS st)"
    using set_selected_namespaces [of st labels] by (auto simp: fold_insert_marks)
  then show ?case using r_mark.IH by (simp add: mark_selected_def well_marked_remarked)
next
  case (r_unmark st ff labels)
  have "fold (\<lambda>ns M. M - {ns}) (selected_namespaces st labels) (MARKED_NS st)
          \<subseteq> MARKED_NS st \<union> ran (LABEL2NS st)"
    by (auto simp: fold_discard_marks)
  then show ?case using r_unmark.IH by (simp add: unmark_selected_def well_marked_remarked)
next
  case (r_toggle st ff labels)
  have "fold toggle_one (selected_namespaces st labels) (MARKED_NS st)
          \<subseteq> MARKED_NS st \<union> ran (LABEL2NS st)"
    using fold_toggle_marks [of "selected_namespaces st labels" "MARKED_NS st"]
      set_selected_namespaces [of st labels] by blast
  then show ?case using r_toggle.IH by (simp add: toggle_selected_def well_marked_remarked)
next
  case (r_clear st ff)
  then show ?case by (simp add: clear_all_marks_def well_marked_remarked)
next
  case (r_hotkey st ff window labels)
  have "toggle_one ns (MARKED_NS st) \<subseteq> MARKED_NS st \<union> ran (LABEL2NS st)"
    if "LABEL2NS st (last labels) = Some ns" for ns
    using that by (auto simp: toggle_one_def ran_def)
  then show ?case
    using r_hotkey.IH
    by (simp add: hotkey_toggle_last_selected_def well_marked_remarked split: option.splits)
next
  case (r_run st opts h)
  then show ?case using keeps_on_run_bake keeps_well_marked by blast
next
  case (r_scene st ex)
  then show ?case by (simp add: well_marked_def inventory_ids_def)
qed

lemma MARKED_NS_mark_selected:
  "MARKED_NS (mark_selected ff S st) = MARKED_NS st \<union> set S"
  by (simp add: mark_selected_def MARKED_NS_populate_list fold_insert_marks)

lemma MARKED_NS_unmark_selected:
  "MARKED_NS (unmark_selected ff S st) = MARKED_NS st - set S"
  by (simp add: unmark_selected_def MARKED_NS_populate_list fold_discard_marks)

text \<open>
  C6, as the code has it. Marking the rigs \<open>S\<close> and then unmarking the same rigs leaves
  the marks that were there before without those of \<open>S\<close>: a rig of \<open>S\<close> that was marked
  before is unmarked afterwards. The marks are what they were exactly when no rig of
  \<open>S\<close> was marked before.
\<close>

theorem mark_then_unmark:
  "MARKED_NS (unmark_selected ff2 S (mark_selected ff1 S st)) = MARKED_NS st - set S
   \<and> (MARKED_NS (unmark_selected ff2 S (mark_selected ff1 S st)) = MARKED_NS st)
       = (set S \<inter> MARKED_NS st = {})"
  by (auto simp: MARKED_NS_mark_selected MARKED_NS_unmark_selected)

theorem mark_then_unmark_witness:
  "set [''B''] \<inter> MARKED_NS marked_session = {}
   \<and> MARKED_NS (unmark_selected no_filter [''B''] (mark_selected no_filter [''B''] marked_session))
       = MARKED_NS marked_session"
  using mark_then_unmark [of no_filter "[''B'']" no_filter marked_session]
  by (simp add: marked_session_def)

text \<open>
  C6 as stated fails: with \<^verbatim>\<open>A\<close> marked, marking and unmarking \<^verbatim>\<open>A\<close> ends with
  no mark at all.
\<close>

theorem mark_then_unmark_counterexample:
  "MARKED_NS marked_session = {''A''}
   \<and> MARKED_NS (unmark_selected no_filter [''A''] (mark_selected no_filter [''A''] marked_session)) = {}
   \<and> MARKED_NS (unmark_selected no_filter [''A''] (mark_selected no_filter [''A''] marked_session))
       \<noteq> MARKED_NS marked_session"
  by (simp add: MARKED_NS_mark_selected MARKED_NS_unmark_selected marked_session_def)

text \<open>
  C7. In every state the tool can reach the marked ids are ids of the inventory. The ids
  that marking, unmarking and toggling work on come from the selected rows through the
  table of the rows: they are ids of the inventory whatever rows the widget reports, and
  a row the table does not know is left out without an error. A refresh keeps of the
  marks those that are ids of the new inventory and adds none.
\<close>

theorem marks_stay_in_inventory:
  assumes "reachable st"
  shows "MARKED_NS st \<subseteq> inventory_ids st
       \<and> set (selected_namespaces st labels) \<subseteq> inventory_ids st
       \<and> selected_namespaces st labels
           = selected_namespaces st (filter (\<lambda>l. LABEL2NS st l \<noteq> None) labels)
       \<and> MARKED_NS (refresh_rigs_cache h st) = MARKED_NS st \<inter> inventory_ids (refresh_rigs_cache h st)"
proof -
  have w: "well_marked st" using assms by (rule reachable_well_marked)
  have s: "set (selected_namespaces st labels) \<subseteq> inventory_ids st"
    using w set_selected_namespaces [of st labels] by (auto simp: well_marked_def)
  show ?thesis
    using w s selected_namespaces_known [of st labels] MARKED_NS_refresh [of h st]
    by (simp add: well_marked_def)
qed

lemma opened_fields:
  "RIGS_CACHE opened_session = [\<lparr>namespace = Some ''A'', actor_name = ''hero'', bind_skeleton_driver = None\<rparr>]"
  "MARKED_NS opened_session = {}"
  "STATUS opened_session = [''A'' \<mapsto> S_not]"
  by (simp_all add: opened_session_def open_bake_ui_def refresh_rigs_cache_def list_scene_rigs_def
      actor_host_def quiet_host_def quiet_scene_def read_bind_driver_def truthy_def initial_session_def
      RIGS_CACHE_populate_list MARKED_NS_populate_list STATUS_populate_list scene_namespaces_def
      rig_namespaces_def status_init_from_bind_def)

lemma rows_single:
  "populate_rows no_filter st [\<lparr>namespace = Some ''A'', actor_name = ''hero'', bind_skeleton_driver = b\<rparr>]
     = [(rig_pretty_label st ''A'' ''hero'', ''A'')]"
  by (simp add: no_filter_def truthy_def Let_def)

lemma refreshed_cache:
  "RIGS_CACHE (refresh_rigs_cache (actor_host quiet_scene) initial_session)
     = [\<lparr>namespace = Some ''A'', actor_name = ''hero'', bind_skeleton_driver = None\<rparr>]"
  by (simp add: refresh_rigs_cache_def list_scene_rigs_def actor_host_def quiet_host_def
      quiet_scene_def read_bind_driver_def status_init_from_bind_def truthy_def Let_def)

lemma opened_rows:
  "populate_rows no_filter (refresh_rigs_cache (actor_host quiet_scene) initial_session)
     (RIGS_CACHE (refresh_rigs_cache (actor_host quiet_scene) initial_session))
   = [(rig_pretty_label (refresh_rigs_cache (actor_host quiet_scene) initial_session) ''A'' ''hero'', ''A'')]"
  by (simp only: refreshed_cache rows_single)

lemma opened_selection:
  "selected_namespaces opened_session (''ghost'' # LIST_LABELS opened_session) = [''A'']"
proof -
  let ?L = "rig_pretty_label (refresh_rigs_cache (actor_host quiet_scene) initial_session) ''A'' ''hero''"
  have f: "collect_filter_flags (actor_host quiet_scene) = no_filter"
    by (simp add: actor_host_def quiet_host_def)
  have l: "LIST_LABELS opened_session = [?L]" "LABEL2NS opened_session = [?L \<mapsto> ''A'']"
    by (simp_all add: opened_session_def open_bake_ui_def populate_list_def f opened_rows)
  have g: "?L \<noteq> ''ghost''"
    by (simp add: rig_pretty_label_def Let_def LIST_MARK_ON_def LIST_MARK_OFF_def)
  show ?thesis using g by (simp add: selected_namespaces_def l)
qed

theorem marks_stay_in_inventory_witness:
  "reachable (mark_selected no_filter
      (selected_namespaces opened_session (''ghost'' # LIST_LABELS opened_session)) opened_session)
   \<and> selected_namespaces opened_session (''ghost'' # LIST_LABELS opened_session) = [''A'']
   \<and> MARKED_NS (mark_selected no_filter
      (selected_namespaces opened_session (''ghost'' # LIST_LABELS opened_session)) opened_session) = {''A''}
   \<and> MARKED_NS (mark_selected no_filter
      (selected_namespaces opened_session (''ghost'' # LIST_LABELS opened_session)) opened_session)
     \<subseteq> inventory_ids (mark_selected no_filter
      (selected_namespaces opened_session (''ghost'' # LIST_LABELS opened_session)) opened_session)"
proof -
  let ?st = "mark_selected no_filter
      (selected_namespaces opened_session (''ghost'' # LIST_LABELS opened_session)) opened_session"
  have "reachable opened_session"
    unfolding opened_session_def by (intro reachable.r_open reachable.r_init)
  then have r: "reachable ?st" by (rule reachable.r_mark)
  have m: "MARKED_NS ?st = {''A''}"
    by (simp add: opened_selection mark_selected_def MARKED_NS_populate_list opened_fields)
  show ?thesis
    using marks_stay_in_inventory [OF r, of "[]" quiet_host] r m opened_selection by simp
qed

section \<open>A status given before the first refresh\<close>

lemma opened_empty:
  "open_bake_ui quiet_host initial_session = initial_session"
  by (simp add: open_bake_ui_def refresh_rigs_cache_def list_scene_rigs_def quiet_host_def
      populate_list_def initial_session_def scene_namespaces_def rig_namespaces_def)

lemma bake_all_loop:
  "bake_loop bake_all_host sf ef i [ns] st
     = (Ret (), emit (Warn (W_failed_baking ns)) (status_set ns S_failed (emit (BatchCall ns sf ef) st)))"
proof -
  have c: "\<not> isCancelled bake_all_host i" by (simp add: bake_all_host_def quiet_host_def)
  have r: "retarget_batch bake_all_host i ns sf ef = Raised" by (simp add: bake_all_host_def)
  have d: "read_bind_driver (scene_at bake_all_host i) ns = None"
    by (simp add: bake_all_host_def quiet_host_def quiet_scene_def read_bind_driver_def)
  have b: "bake_item bake_all_host sf ef i ns st
     = (Ret (), emit (Warn (W_failed_baking ns)) (status_set ns S_failed (emit (BatchCall ns sf ef) st)))"
    by (simp add: bake_item_def bake_try_def d r)
  show ?thesis using c b by simp
qed

lemma unlisted_fields:
  "STATUS unlisted_session = [''A'' \<mapsto> S_failed]" "RIGS_CACHE unlisted_session = []"
proof -
  have f: "collect_filter_flags bake_all_host = no_filter" by (simp add: bake_all_host_def quiet_host_def)
  have a: "get_all_actors_in_scene bake_all_host = Ret [\<lparr>a_namespace = Some ''A'', a_actor_name = ''hero''\<rparr>]"
    by (simp add: bake_all_host_def)
  have s: "bake_step plain_options bake_all_host [] 1 10 st
     = (Ret PyNone, populate_list no_filter
          (emit (Warn (W_failed_baking ''A'')) (status_set ''A'' S_failed (emit (BatchCall ''A'' 1 10) st))))"
    for st
    by (simp add: bake_step_def a truthy_def driver_unfold bake_all_loop f del: bake_loop.simps)
  have o: "\<not> cb_prepost_enable plain_options" "\<not> cb_timeeditor plain_options" "\<not> cb_mute plain_options"
    "\<not> cb_restore plain_options"
    by (simp_all add: plain_options_def)
  have d: "bake_all_dialog bake_all_host = ''Yes, bake all''" by (simp add: bake_all_host_def)
  have m: "sorted_list_of_set (MARKED_NS initial_session) = []" by (simp add: initial_session_def)
  have run: "unlisted_session
      = populate_list no_filter (emit (InViewMessage 1 10) (populate_list no_filter
          (emit (Warn (W_failed_baking ''A'')) (status_set ''A'' S_failed (emit (BatchCall ''A'' 1 10)
             (emit (SetPlayback 1 10) initial_session))))))"
    by (simp add: unlisted_session_def opened_empty on_run_bake_def m d o plain_range
        run_with_range_def validate_range_def s f)
  show "STATUS unlisted_session = [''A'' \<mapsto> S_failed]"
    by (simp add: run STATUS_populate_list STATUS_emit status_set_def emit_def truthy_def
        initial_session_def)
  show "RIGS_CACHE unlisted_session = []"
    by (simp add: run RIGS_CACHE_populate_list status_set_def emit_def initial_session_def)
qed

lemma RIGS_CACHE_refresh:
  "RIGS_CACHE (refresh_rigs_cache h st) = list_scene_rigs (scene_at h 0) (get_all_actors_in_scene h)"
  by (simp add: refresh_rigs_cache_def Let_def seed_statuses_fields)

text \<open>
  C5 as stated fails when a bake comes before the refresh. The window is opened on an empty
  scene, the rig \<^verbatim>\<open>A\<close> comes into the scene, and a run with nothing marked bakes all
  rigs: the bake of \<^verbatim>\<open>A\<close> raises and \<^verbatim>\<open>A\<close> is failed, though no refresh has met
  it. The next refresh is the first to meet \<^verbatim>\<open>A\<close> and reads its bind driver as 1, and
  \<^verbatim>\<open>A\<close> stays failed: it is not set to baked.
\<close>

theorem seeded_once_counterexample:
  "reachable unlisted_session
   \<and> RIGS_CACHE (open_bake_ui quiet_host initial_session) = []
   \<and> RIGS_CACHE unlisted_session = []
   \<and> STATUS unlisted_session ''A'' = Some S_failed
   \<and> find (\<lambda>r. namespace r = Some ''A'')
        (list_scene_rigs (scene_at (actor_host ready_scene) 0)
           (get_all_actors_in_scene (actor_host ready_scene)))
       = Some \<lparr>namespace = Some ''A'', actor_name = ''hero'', bind_skeleton_driver = Some 1\<rparr>
   \<and> ''A'' \<in> inventory_ids (refresh_rigs_cache (actor_host ready_scene) unlisted_session)
   \<and> status_get (refresh_rigs_cache (actor_host ready_scene) unlisted_session) ''A'' = S_failed
   \<and> status_get (refresh_rigs_cache (actor_host ready_scene) unlisted_session) ''A'' \<noteq> S_baked"
proof -
  have r: "reachable unlisted_session"
    unfolding unlisted_session_def by (intro reachable.r_run reachable.r_open reachable.r_init)
  have e: "RIGS_CACHE (open_bake_ui quiet_host initial_session) = []"
    unfolding opened_empty by (simp add: initial_session_def)
  have k: "STATUS (refresh_rigs_cache (actor_host ready_scene) unlisted_session) ''A'' = Some S_failed"
    by (rule refresh_keeps) (simp add: unlisted_fields)
  have i: "''A'' \<in> inventory_ids (refresh_rigs_cache (actor_host ready_scene) unlisted_session)"
    by (simp add: inventory_ids_def RIGS_CACHE_refresh actor_rigs mem_scene_namespaces truthy_def)
  show ?thesis using r e k i by (simp add: unlisted_fields actor_rigs status_get_def)
qed

section \<open>The fallback of the frame range\<close>

lemma trace_only_fields:
  "MARKED_NS (emit e st) = MARKED_NS st"
  by (simp add: emit_def)

lemma on_run_bake_unfold:
  "reaches_range h st \<Longrightarrow>
   on_run_bake opts h st =
     (case compute_range opts h (pre_of opts) (post_of opts) st of
        (None, st1) \<Rightarrow> (Ret PyNone, st1)
      | (Some frames, st1) \<Rightarrow>
          run_with_range opts h (cb_timeeditor opts \<and> time_editor_dialog h = ''Yes, delete'')
            (sorted_list_of_set (MARKED_NS st)) frames st1)"
  by (auto simp: on_run_bake_def reaches_range_def pre_of_def post_of_def Let_def)

lemma run_with_range_method:
  "run_with_range (opts\<lparr>rbg_method := m\<rparr>) h w ns frames st = run_with_range opts h w ns frames st"
proof -
  have b: "bake_step (opts\<lparr>rbg_method := m\<rparr>) h ns s e st' = bake_step opts h ns s e st'" for s e st'
    by (simp add: bake_step_def)
  show ?thesis
    by (simp add: run_with_range_def b Let_def cong: prod.case_cong py.case_cong)
qed

lemma compute_range_unreadable:
  assumes "rbg_method opts = 1"
    and "get_start_frame_from_layout_cam (scene_at h 0) (normalize_label (om_first opts)) pre = Raised
       \<or> get_end_frame_from_layout_cam (scene_at h 0) (normalize_label (om_last opts)) post = Raised"
  shows "compute_range opts h pre post st =
     (if cb_fallback opts
      then (Some (timeline_range h pre post),
            emit (Warn (W_fallback_timeline (fst (timeline_range h pre post))
                          (snd (timeline_range h pre post)))) st)
      else (None, emit (Warn W_failed_read_head_tail) st))"
  using assms by (auto simp: compute_range_def split: py.splits)

lemma compute_range_timeline:
  "compute_range (opts\<lparr>rbg_method := 2\<rparr>) h pre post st = (Some (timeline_range h pre post), st)"
  by (simp add: compute_range_def)

text \<open>
  C8. Let the range come from the cameras, the run get as far as the frame range, and
  the reading of \<^verbatim>\<open>headIn\<close> of the first camera or of \<^verbatim>\<open>tailOut\<close> of the last one
  fail. With the fallback allowed the range is the one of the time slider with the same
  padding, a warning is given, and the run goes on exactly as a run with the range source
  "Timeline" does from there. With the fallback not allowed there is no range: the run
  ends at once with a warning and nothing else has happened, so no bake has started.
\<close>

theorem unreadable_head_tail:
  assumes "rbg_method opts = 1" and "reaches_range h st"
    and "get_start_frame_from_layout_cam (scene_at h 0) (normalize_label (om_first opts)) (pre_of opts)
           = Raised
       \<or> get_end_frame_from_layout_cam (scene_at h 0) (normalize_label (om_last opts)) (post_of opts)
           = Raised"
  shows "(cb_fallback opts \<longrightarrow>
            compute_range opts h (pre_of opts) (post_of opts) st
              = (Some (playback_min h - pre_of opts, playback_max h + post_of opts),
                 emit (Warn (W_fallback_timeline (playback_min h - pre_of opts)
                               (playback_max h + post_of opts))) st)
          \<and> on_run_bake opts h st
              = on_run_bake (opts\<lparr>rbg_method := 2\<rparr>) h
                  (emit (Warn (W_fallback_timeline (playback_min h - pre_of opts)
                                 (playback_max h + post_of opts))) st))
       \<and> (\<not> cb_fallback opts \<longrightarrow>
            compute_range opts h (pre_of opts) (post_of opts) st
              = (None, emit (Warn W_failed_read_head_tail) st)
          \<and> on_run_bake opts h st = (Ret PyNone, emit (Warn W_failed_read_head_tail) st))"
proof (intro conjI impI)
  let ?w = "Warn (W_fallback_timeline (playback_min h - pre_of opts) (playback_max h + post_of opts))"
  assume f: "cb_fallback opts"
  show c: "compute_range opts h (pre_of opts) (post_of opts) st
         = (Some (playback_min h - pre_of opts, playback_max h + post_of opts), emit ?w st)"
    using f compute_range_unreadable [OF assms(1,3), of st] by (simp add: timeline_range_def)
  have r: "reaches_range h (emit ?w st)"
    using assms(2) by (simp add: reaches_range_def trace_only_fields)
  have p: "pre_of (opts\<lparr>rbg_method := 2\<rparr>) = pre_of opts" "post_of (opts\<lparr>rbg_method := 2\<rparr>) = post_of opts"
    by (simp_all add: pre_of_def post_of_def)
  show "on_run_bake opts h st = on_run_bake (opts\<lparr>rbg_method := 2\<rparr>) h (emit ?w st)"
    by (simp add: on_run_bake_unfold [OF assms(2)] on_run_bake_unfold [OF r] c p
        compute_range_timeline timeline_range_def run_with_range_method trace_only_fields)
next
  assume f: "\<not> cb_fallback opts"
  show c: "compute_range opts h (pre_of opts) (post_of opts) st
         = (None, emit (Warn W_failed_read_head_tail) st)"
    using f compute_range_unreadable [OF assms(1,3), of st] by simp
  show "on_run_bake opts h st = (Ret PyNone, emit (Warn W_failed_read_head_tail) st)"
    by (simp add: on_run_bake_unfold [OF assms(2)] c)
qed

lemma quiet_unreadable: "read_cam_attr_int quiet_scene cam attr = Raised"
  by (simp add: read_cam_attr_int_def read_ctx_def read_plug_def read_shape_def quiet_scene_def)

lemma quiet_bind_driver: "read_bind_driver (scene_at quiet_host i) ns = None"
  by (simp add: quiet_host_def quiet_scene_def read_bind_driver_def)

lemma quiet_loop:
  "bake_loop quiet_host sf ef i [ns] st
     = (Ret (), status_set ns S_baked (emit (BatchCall ns sf ef) st))"
proof -
  have c: "\<not> isCancelled quiet_host i" by (simp add: quiet_host_def)
  have r: "retarget_batch quiet_host i ns sf ef = Ret PyNone" by (simp add: quiet_host_def)
  have b: "bake_item quiet_host sf ef i ns st
             = (Ret (), status_set ns S_baked (emit (BatchCall ns sf ef) st))"
    by (simp add: bake_item_def bake_try_def quiet_bind_driver r)
  show ?thesis using c b by simp
qed

lemma quiet_step:
  "\<not> cb_skip_baked opts \<Longrightarrow>
   bake_step opts quiet_host [ns] sf ef st
     = (Ret PyNone, populate_list no_filter (status_set ns S_baked (emit (BatchCall ns sf ef) st)))"
proof -
  have f: "collect_filter_flags quiet_host = no_filter" by (simp add: quiet_host_def)
  assume "\<not> cb_skip_baked opts"
  then show ?thesis by (simp add: bake_step_def driver_unfold quiet_loop f del: bake_loop.simps)
qed

lemma camera_fields:
  "rbg_method (camera_options b) = 1" "cb_fallback (camera_options b) = b"
  "pre_of (camera_options b) = 0" "post_of (camera_options b) = 0"
  "\<not> cb_skip_baked (camera_options b)" "\<not> cb_mute (camera_options b)"
  "\<not> cb_restore (camera_options b)" "\<not> cb_timeeditor (camera_options b)"
  by (simp_all add: camera_options_def plain_options_def pre_of_def post_of_def)

lemma marked_fields:
  "sorted_list_of_set (MARKED_NS marked_session) = [''A'']" "trace marked_session = []"
  "STATUS marked_session = [''A'' \<mapsto> S_not]"
  by (simp_all add: marked_session_def initial_session_def)

lemma quiet_timeline_run:
  "snd (on_run_bake ((camera_options True)\<lparr>rbg_method := 2\<rparr>) quiet_host (emit w marked_session))
     = populate_list no_filter (emit (InViewMessage 1 100) (populate_list no_filter
         (status_set ''A'' S_baked (emit (BatchCall ''A'' 1 100) (emit (SetPlayback 1 100)
            (emit w marked_session))))))"
proof -
  have r: "reaches_range quiet_host (emit w marked_session)"
    by (simp add: reaches_range_def trace_only_fields marked_fields)
  have t: "timeline_range quiet_host 0 0 = (1, 100)" by (simp add: timeline_range_def quiet_host_def)
  have p: "pre_of ((camera_options True)\<lparr>rbg_method := 2\<rparr>) = 0"
    "post_of ((camera_options True)\<lparr>rbg_method := 2\<rparr>) = 0"
    by (simp_all add: pre_of_def post_of_def camera_options_def plain_options_def)
  have f: "collect_filter_flags quiet_host = no_filter" by (simp add: quiet_host_def)
  have o: "\<not> cb_skip_baked ((camera_options True)\<lparr>rbg_method := 2\<rparr>)"
    "\<not> cb_mute ((camera_options True)\<lparr>rbg_method := 2\<rparr>)"
    "\<not> cb_restore ((camera_options True)\<lparr>rbg_method := 2\<rparr>)"
    "\<not> cb_timeeditor ((camera_options True)\<lparr>rbg_method := 2\<rparr>)"
    by (simp_all add: camera_fields)
  have s: "bake_step ((camera_options True)\<lparr>rbg_method := 2\<rparr>) quiet_host [''A''] 1 100 st
     = (Ret PyNone, populate_list no_filter (status_set ''A'' S_baked (emit (BatchCall ''A'' 1 100) st)))"
    for st using o(1) by (rule quiet_step)
  show ?thesis
    by (simp add: on_run_bake_unfold [OF r] p compute_range_timeline t
        run_with_range_def validate_range_def o trace_only_fields marked_fields s f)
qed

theorem unreadable_head_tail_witness:
  "rbg_method (camera_options True) = 1 \<and> cb_fallback (camera_options True)
   \<and> rbg_method (camera_options False) = 1 \<and> \<not> cb_fallback (camera_options False)
   \<and> reaches_range quiet_host marked_session
   \<and> get_start_frame_from_layout_cam (scene_at quiet_host 0)
        (normalize_label (om_first (camera_options True))) (pre_of (camera_options True)) = Raised
   \<and> get_start_frame_from_layout_cam (scene_at quiet_host 0)
        (normalize_label (om_first (camera_options False))) (pre_of (camera_options False)) = Raised
   \<and> STATUS (snd (on_run_bake (camera_options True) quiet_host marked_session)) ''A'' = Some S_baked
   \<and> trace (snd (on_run_bake (camera_options True) quiet_host marked_session))
       = [Warn (W_fallback_timeline 1 100), SetPlayback 1 100, BatchCall ''A'' 1 100, InViewMessage 1 100]
   \<and> on_run_bake (camera_options False) quiet_host marked_session
       = (Ret PyNone, emit (Warn W_failed_read_head_tail) marked_session)"
proof -
  have h2: "reaches_range quiet_host marked_session"
    by (simp add: reaches_range_def marked_fields)
  have h3: "get_start_frame_from_layout_cam (scene_at quiet_host 0)
        (normalize_label (om_first (camera_options b))) (pre_of (camera_options b)) = Raised" for b
    by (simp add: get_start_frame_from_layout_cam_def quiet_host_def quiet_unreadable)
  have m: "playback_min quiet_host = 1" "playback_max quiet_host = 100" by (simp_all add: quiet_host_def)
  note on = unreadable_head_tail [OF camera_fields(1) h2 disjI1, OF h3, of True]
  note off = unreadable_head_tail [OF camera_fields(1) h2 disjI1, OF h3, of False]
  have a: "snd (on_run_bake (camera_options True) quiet_host marked_session)
      = populate_list no_filter (emit (InViewMessage 1 100) (populate_list no_filter
         (status_set ''A'' S_baked (emit (BatchCall ''A'' 1 100) (emit (SetPlayback 1 100)
            (emit (Warn (W_fallback_timeline 1 100)) marked_session))))))"
    using on by (simp add: camera_fields m quiet_timeline_run)
  have b: "on_run_bake (camera_options False) quiet_host marked_session
       = (Ret PyNone, emit (Warn W_failed_read_head_tail) marked_session)"
    using off by (simp add: camera_fields)
  show ?thesis
    using h2 h3 b
    by (simp add: a camera_fields STATUS_populate_list STATUS_emit STATUS_status_set
        trace_populate_list trace_emit trace_status_set truthy_def marked_fields)
qed

section \<open>Restoring the muted expressions\<close>

lemma restore_bound:
  "muted_expr_backup st = Some backup \<Longrightarrow>
   restore_muted_expressions h st
     = (Ret PyNone, (fold (restore_one h) backup st)\<lparr>muted_expr_backup := Some []\<rparr>)"
  by (simp add: restore_muted_expressions_def)

lemma muted_expr_backup_restore_one:
  "muted_expr_backup (restore_one h entry st) = muted_expr_backup st"
  by (simp add: restore_one_def emit_def split: prod.splits)

lemma expressions_restore_one:
  "expressions (restore_one h (k, v) st) ex =
     (if ex = k \<and> expressions st k \<noteq> None \<and> \<not> expression_edit_raises h k v then Some v
      else expressions st ex)"
  by (simp add: restore_one_def emit_def)

lemma expressions_fold_restore:
  "distinct (map fst backup) \<Longrightarrow>
   expressions (fold (restore_one h) backup st) ex =
     (case map_of backup ex of
        None \<Rightarrow> expressions st ex
      | Some script \<Rightarrow>
          if expressions st ex \<noteq> None \<and> \<not> expression_edit_raises h ex script then Some script
          else expressions st ex)"
proof (induction backup arbitrary: st)
  case Nil
  then show ?case by simp
next
  case (Cons entry backup)
  obtain k v where entry: "entry = (k, v)" by (cases entry)
  have d: "distinct (map fst backup)" and k: "k \<notin> fst ` set backup"
    using Cons.prems by (simp_all add: entry)
  have none: "map_of backup k = None" using k by (simp add: map_of_eq_None_iff)
  show ?case
    using Cons.IH [OF d, of "restore_one h (k, v) st"] none
    by (auto simp: entry expressions_restore_one split: option.splits)
qed

lemma dict_put_keys: "fst ` set (dict_put k v d) = insert k (fst ` set d)"
proof (induction d)
  case Nil
  show ?case by simp
next
  case (Cons entry d)
  obtain k' v' where entry: "entry = (k', v')" by (cases entry)
  show ?case
  proof (cases "k' = k")
    case True
    then show ?thesis by (simp add: entry)
  next
    case False
    then show ?thesis using Cons.IH by (simp add: entry insert_commute)
  qed
qed

lemma dict_put_distinct: "distinct (map fst d) \<Longrightarrow> distinct (map fst (dict_put k v d))"
  by (induction d) (auto simp: dict_put_keys)

lemma backup_ok_mute_one: "backup_ok st \<Longrightarrow> backup_ok (mute_one h ex st)"
  by (auto simp: backup_ok_def mute_one_def emit_def Let_def dict_put_distinct split: option.splits)

lemma backup_ok_fold:
  "backup_ok st \<Longrightarrow> backup_ok (fold (\<lambda>(ex, missing). mute_one h ex) broken st)"
  by (induction broken arbitrary: st) (auto simp: backup_ok_mute_one)

lemma mute_backup_distinct:
  "\<exists>b. muted_expr_backup (snd (mute_broken_expressions h st)) = Some b \<and> distinct (map fst b)"
proof -
  have "backup_ok (st\<lparr>muted_expr_backup := Some []\<rparr>)" by (simp add: backup_ok_def)
  then have "backup_ok (snd (mute_broken_expressions h st))"
    by (simp add: mute_broken_expressions_def Let_def backup_ok_fold)
  then show ?thesis by (auto simp: backup_ok_def split: option.splits)
qed

text \<open>
  C9, as the code has it. Once \<^verbatim>\<open>mute_broken_expressions\<close> has run, so that the
  backup exists, \<^verbatim>\<open>restore_muted_expressions\<close> raises nothing and leaves the backup
  empty, whatever entries it had and whether their nodes are still there. On an empty
  backup it changes nothing; and restoring once more after a restore, a backup emptied by
  the call before, changes nothing either. On a backup with entries, one for a node, the
  script of an entry is written back into its node if the node is still there and the edit
  does not raise; every other expression of the scene, also one whose edit raised, is left
  as it was, and its entry is gone with the backup.
\<close>

theorem restore_clears_backup:
  assumes "muted_expr_backup st = Some backup"
  shows "fst (restore_muted_expressions h st) = Ret PyNone
       \<and> muted_expr_backup (snd (restore_muted_expressions h st)) = Some []
       \<and> (backup = [] \<longrightarrow> snd (restore_muted_expressions h st) = st)
       \<and> restore_muted_expressions h' (snd (restore_muted_expressions h st))
           = (Ret PyNone, snd (restore_muted_expressions h st))
       \<and> (distinct (map fst backup) \<longrightarrow>
            (\<forall>ex. expressions (snd (restore_muted_expressions h st)) ex =
               (case map_of backup ex of
                  None \<Rightarrow> expressions st ex
                | Some script \<Rightarrow>
                    if expressions st ex \<noteq> None \<and> \<not> expression_edit_raises h ex script
                    then Some script
                    else expressions st ex)))"
proof -
  let ?st1 = "(fold (restore_one h) backup st)\<lparr>muted_expr_backup := Some []\<rparr>"
  have r: "restore_muted_expressions h st = (Ret PyNone, ?st1)"
    using assms by (rule restore_bound)
  have e: "snd (restore_muted_expressions h st) = st" if "backup = []"
    using that assms by (simp add: r)
  have again: "restore_muted_expressions h' ?st1 = (Ret PyNone, ?st1)"
    by (simp add: restore_muted_expressions_def)
  have x: "expressions ?st1 ex =
             (case map_of backup ex of
                None \<Rightarrow> expressions st ex
              | Some script \<Rightarrow>
                  if expressions st ex \<noteq> None \<and> \<not> expression_edit_raises h ex script
                  then Some script
                  else expressions st ex)"
    if "distinct (map fst backup)" for ex
    using expressions_fold_restore [OF that, of h st ex] by simp
  show ?thesis using e again x by (simp add: r)
qed

lemma broken_muted:
  "snd (mute_broken_expressions broken_host broken_session)
     = broken_session\<lparr>muted_expr_backup := Some [(''expr1'', ''ghost.tx = 1'')],
                       expressions := [''expr1'' \<mapsto> []]\<rparr>"
  by (simp add: mute_broken_expressions_def mute_one_def broken_host_def broken_session_def
      quiet_host_def initial_session_def)

theorem restore_clears_backup_witness:
  "muted_expr_backup (snd (mute_broken_expressions broken_host broken_session))
     = Some [(''expr1'', ''ghost.tx = 1'')]
   \<and> distinct (map fst [(''expr1'', ''ghost.tx = 1'')])
   \<and> expressions (snd (mute_broken_expressions broken_host broken_session)) ''expr1'' = Some []
   \<and> \<not> expression_edit_raises broken_host ''expr1'' ''ghost.tx = 1''
   \<and> expression_edit_raises locked_host ''expr1'' ''ghost.tx = 1''
   \<and> fst (restore_muted_expressions broken_host (snd (mute_broken_expressions broken_host broken_session)))
       = Ret PyNone
   \<and> muted_expr_backup (snd (restore_muted_expressions broken_host
        (snd (mute_broken_expressions broken_host broken_session)))) = Some []
   \<and> expressions (snd (restore_muted_expressions broken_host
        (snd (mute_broken_expressions broken_host broken_session)))) ''expr1'' = Some ''ghost.tx = 1''
   \<and> muted_expr_backup (snd (restore_muted_expressions locked_host
        (snd (mute_broken_expressions broken_host broken_session)))) = Some []
   \<and> expressions (snd (restore_muted_expressions locked_host
        (snd (mute_broken_expressions broken_host broken_session)))) ''expr1'' = Some []
   \<and> restore_muted_expressions broken_host (snd (restore_muted_expressions broken_host
        (snd (mute_broken_expressions broken_host broken_session))))
       = (Ret PyNone, snd (restore_muted_expressions broken_host
        (snd (mute_broken_expressions broken_host broken_session))))
   \<and> muted_expr_backup (initial_session\<lparr>muted_expr_backup := Some []\<rparr>) = Some []
   \<and> snd (restore_muted_expressions broken_host (initial_session\<lparr>muted_expr_backup := Some []\<rparr>))
       = initial_session\<lparr>muted_expr_backup := Some []\<rparr>"
proof -
  let ?m = "snd (mute_broken_expressions broken_host broken_session)"
  have h: "muted_expr_backup ?m = Some [(''expr1'', ''ghost.tx = 1'')]"
    by (simp add: broken_muted)
  have h0: "muted_expr_backup (initial_session\<lparr>muted_expr_backup := Some []\<rparr>) = Some []"
    by simp
  have d: "distinct (map fst [(''expr1'', ''ghost.tx = 1'')])" by simp
  have y: "expressions ?m ''expr1'' = Some []" by (simp add: broken_muted)
  have e: "\<not> expression_edit_raises broken_host ''expr1'' ''ghost.tx = 1''"
    "expression_edit_raises locked_host ''expr1'' ''ghost.tx = 1''"
    by (simp_all add: locked_host_def broken_host_def quiet_host_def)
  note t = restore_clears_backup [OF h, of broken_host broken_host]
  note l = restore_clears_backup [OF h, of locked_host broken_host]
  note t0 = restore_clears_backup [OF h0, of broken_host broken_host]
  have x: "expressions (snd (restore_muted_expressions broken_host ?m)) ''expr1'' = Some ''ghost.tx = 1''"
    using t [THEN conjunct2, THEN conjunct2, THEN conjunct2, THEN conjunct2, rule_format, OF d, of "''expr1''"]
      y e(1)
    by simp
  have xl: "expressions (snd (restore_muted_expressions locked_host ?m)) ''expr1'' = Some []"
    using l [THEN conjunct2, THEN conjunct2, THEN conjunct2, THEN conjunct2, rule_format, OF d, of "''expr1''"]
      y e(2)
    by simp
  have bl: "muted_expr_backup (snd (restore_muted_expressions locked_host ?m)) = Some []"
    using l by blast
  show ?thesis using t t0 h x xl bl y e by simp
qed

text \<open>
  C9 as stated fails. A backup that still has an entry is not restored as a no-op: the
  script of the node is written back and the backup is emptied, so the state has changed.
  And before \<^verbatim>\<open>mute_broken_expressions\<close> has ever run the name of the backup is
  not bound, and the call raises.
\<close>

theorem restore_clears_backup_counterexample:
  "muted_expr_backup (broken_session\<lparr>muted_expr_backup := Some [(''expr1'', ''ghost.tx = 1'')],
                       expressions := [''expr1'' \<mapsto> []]\<rparr>) = Some [(''expr1'', ''ghost.tx = 1'')]
   \<and> expressions (snd (restore_muted_expressions quiet_host
        (broken_session\<lparr>muted_expr_backup := Some [(''expr1'', ''ghost.tx = 1'')],
                       expressions := [''expr1'' \<mapsto> []]\<rparr>))) ''expr1'' = Some ''ghost.tx = 1''
   \<and> snd (restore_muted_expressions quiet_host
        (broken_session\<lparr>muted_expr_backup := Some [(''expr1'', ''ghost.tx = 1'')],
                       expressions := [''expr1'' \<mapsto> []]\<rparr>))
       \<noteq> broken_session\<lparr>muted_expr_backup := Some [(''expr1'', ''ghost.tx = 1'')],
                       expressions := [''expr1'' \<mapsto> []]\<rparr>
   \<and> fst (restore_muted_expressions quiet_host initial_session) = Raised"
proof -
  let ?st = "broken_session\<lparr>muted_expr_backup := Some [(''expr1'', ''ghost.tx = 1'')],
                       expressions := [''expr1'' \<mapsto> []]\<rparr>"
  have b: "muted_expr_backup (snd (restore_muted_expressions quiet_host ?st)) = Some []"
    by (simp add: restore_muted_expressions_def)
  have "muted_expr_backup ?st \<noteq> Some []" by simp
  then have ne: "snd (restore_muted_expressions quiet_host ?st) \<noteq> ?st" using b by metis
  have x: "expressions (snd (restore_muted_expressions quiet_host ?st)) ''expr1'' = Some ''ghost.tx = 1''"
    by (simp add: restore_muted_expressions_def restore_one_def quiet_host_def)
  have n: "fst (restore_muted_expressions quiet_host initial_session) = Raised"
    by (simp add: restore_muted_expressions_def initial_session_def)
  show ?thesis using ne x n by simp
qed

end
